theory Spec2Isabelle
  imports Complex_Main
begin

section \<open>The WebSocket request/response helper of \<^verbatim>\<open>assets/js/connections.mjs\<close>\<close>

text \<open>
  The module keeps four module-level variables (\<^verbatim>\<open>websocket\<close>, \<^verbatim>\<open>connectionPromise\<close>,
  \<^verbatim>\<open>messageHandlers\<close>, \<^verbatim>\<open>messageId\<close>) and reacts to calls of its three exported
  functions and to the events of the transport and of the timers it arms. The embedding
  is a state record, one HOL function per source function or callback, and a step
  function that runs one call or one event to completion, as the single-threaded event
  loop of the host does.
\<close>

subsection \<open>Values that cross the module boundary\<close>

text \<open>
  A decoded JSON text, as \<^verbatim>\<open>JSON.parse\<close> returns it. \<open>JUndefined\<close> is what reading a
  missing property yields. Numbers are the finite doubles, kept as rationals.
\<close>

datatype jsval =
    JUndefined
  | JNull
  | JBool bool
  | JNum rat
  | JStr string
  | JArr "jsval list"
  | JObj "(string \<times> jsval) list"

text \<open>The conversion to boolean that \<^verbatim>\<open>if (x)\<close> and \<^verbatim>\<open>x && y\<close> apply.\<close>

fun truthy :: "jsval \<Rightarrow> bool" where
  "truthy JUndefined = False"
| "truthy JNull = False"
| "truthy (JBool b) = b"
| "truthy (JNum q) = (q \<noteq> 0)"
| "truthy (JStr s) = (s \<noteq> [])"
| "truthy (JArr xs) = True"
| "truthy (JObj kvs) = True"

text \<open>
  Reading one of the properties \<^verbatim>\<open>id\<close>, \<^verbatim>\<open>error\<close>, \<^verbatim>\<open>payload\<close> of a decoded value:
  \<open>None\<close> is the TypeError that a read on \<^verbatim>\<open>null\<close> raises; a primitive or an array
  has none of the three properties.
\<close>

fun getProp :: "jsval \<Rightarrow> string \<Rightarrow> jsval option" where
  "getProp JUndefined k = None"
| "getProp JNull k = None"
| "getProp (JObj kvs) k = Some (case map_of kvs k of None \<Rightarrow> JUndefined | Some v \<Rightarrow> v)"
| "getProp v k = Some JUndefined"

text \<open>
  The table is keyed by the numbers the counter has produced, so a value can only hit a
  key when it is a number equal to a non-negative integer (\<^verbatim>\<open>Map.prototype.has\<close>
  compares with SameValueZero: the string \<^verbatim>\<open>"1"\<close> is not the key \<^verbatim>\<open>1\<close>).
\<close>

definition key_of :: "jsval \<Rightarrow> nat option" where
  "key_of v =
     (case v of
        JNum q \<Rightarrow> (if 0 \<le> q \<and> q = of_int \<lfloor>q\<rfloor> then Some (nat \<lfloor>q\<rfloor>) else None)
      | _ \<Rightarrow> None)"

text \<open>
  A rejection reason: \<open>Error v\<close> is \<^verbatim>\<open>new Error(v)\<close>, an Error object built from \<open>v\<close>
  (its message is the string conversion of \<open>v\<close>); \<open>ErrorEvent n\<close> is the event object
  the transport hands to \<^verbatim>\<open>onerror\<close>.
\<close>

datatype reason = Error jsval | ErrorEvent nat

datatype 'a outcome = Pending | Fulfilled 'a | Rejected reason

text \<open>A promise settles once: \<^verbatim>\<open>resolve\<close> and \<^verbatim>\<open>reject\<close> on a settled promise do nothing.\<close>

definition settle :: "nat \<Rightarrow> 'a outcome \<Rightarrow> 'a outcome list \<Rightarrow> 'a outcome list" where
  "settle i v ps = (if i < length ps \<and> ps ! i = Pending then ps[i := v] else ps)"

datatype readyState = CONNECTING | OPEN | CLOSING | CLOSED

text \<open>
  A transport instance: its ready state, and the connection promise whose \<^verbatim>\<open>resolve\<close>
  and \<^verbatim>\<open>reject\<close> the handlers installed on it close over.
\<close>

record socket =
  readyState :: readyState
  attempt :: nat

datatype level = LOG | WARN | ERROR

text \<open>The data of a message event after \<^verbatim>\<open>JSON.parse\<close>: the parse throws, or returns a value.\<close>

datatype data = Malformed | Decoded jsval

text \<open>
  A \<^verbatim>\<open>sendRequest\<close> body suspended at \<^verbatim>\<open>await openWebSocket()\<close>: the promise awaited, the
  arguments \<^verbatim>\<open>type\<close> and \<^verbatim>\<open>payload\<close>, and the future the call returned.
\<close>

type_synonym waiter = "nat \<times> string \<times> jsval \<times> nat"

text \<open>An armed timer: when it is due, and the \<^verbatim>\<open>id\<close>, \<^verbatim>\<open>type\<close> and future of its closure.\<close>

type_synonym timer = "nat \<times> nat \<times> string \<times> nat"

text \<open>A frame handed to \<^verbatim>\<open>websocket.send\<close>: the transport, then \<^verbatim>\<open>{id, type, payload}\<close>.\<close>

type_synonym frame = "nat \<times> nat \<times> string \<times> jsval"

record state =
  websocket :: "nat option"
  connectionPromise :: "nat option"
  messageHandlers :: "nat \<rightharpoonup> nat"
  messageId :: nat
  sockets :: "socket list"
  connPromises :: "unit outcome list"
  futures :: "jsval outcome list"
  awaiting :: "waiter list"
  timers :: "timer list"
  sent :: "frame list"
  console :: "(level \<times> string) list"
  clock :: nat

definition init :: state where
  "init = \<lparr> websocket = None, connectionPromise = None, messageHandlers = Map.empty,
            messageId = 0, sockets = [], connPromises = [], futures = [], awaiting = [],
            timers = [], sent = [], console = [], clock = 0 \<rparr>"

definition say :: "level \<Rightarrow> string \<Rightarrow> state \<Rightarrow> state" where
  "say l m s = s\<lparr> console := console s @ [(l, m)] \<rparr>"

subsection \<open>\<^verbatim>\<open>_handleWebSocketMessage\<close>\<close>

text \<open>
  A property of a frame whose \<^verbatim>\<open>id\<close> has been read already, so that the read cannot
  throw: the value, or \<^verbatim>\<open>undefined\<close>.
\<close>

definition readProp :: "jsval \<Rightarrow> string \<Rightarrow> jsval" where
  "readProp message k = (case getProp message k of None \<Rightarrow> JUndefined | Some v \<Rightarrow> v)"

text \<open>
  Line 28: \<^verbatim>\<open>new Error(v)\<close> converts \<open>v\<close> to a string, and the conversion of a decoded
  value can throw a TypeError. An object is converted by its \<^verbatim>\<open>toString\<close>, which is the
  inherited one unless the object has a property of that name; a property that came out
  of \<^verbatim>\<open>JSON.parse\<close> is never a function, and then the inherited \<^verbatim>\<open>valueOf\<close> returns
  the object itself, or its own \<^verbatim>\<open>valueOf\<close> is no function either: the conversion
  throws. An array is converted by joining the conversions of its elements, where
  \<^verbatim>\<open>null\<close> gives the empty string. Every other value converts.
\<close>

fun convertible :: "jsval \<Rightarrow> bool" where
  "convertible (JObj kvs) = (map_of kvs ''toString'' = None)"
| "convertible (JArr xs) = (\<forall>x \<in> set xs. convertible x)"
| "convertible v = True"

text \<open>
  Lines 27 to 31: what the frame has for the future of the stored handler. \<open>None\<close> is the
  TypeError that line 28 throws when the truthy \<^verbatim>\<open>error\<close> cannot be converted.
\<close>

definition response :: "jsval \<Rightarrow> jsval outcome option" where
  "response message =
     (if truthy (readProp message ''error'')
      then (if convertible (readProp message ''error'')
            then Some (Rejected (Error (readProp message ''error'')))
            else None)
      else Some (Fulfilled (readProp message ''payload'')))"

text \<open>Line 28 or line 30, then line 32: the future is settled and the entry deleted.\<close>

definition settleEntry :: "jsval outcome \<Rightarrow> nat \<Rightarrow> nat \<Rightarrow> state \<Rightarrow> state" where
  "settleEntry v k handler s =
     (let s1 = s\<lparr> futures := settle handler v (futures s) \<rparr>
      in s1\<lparr> messageHandlers := (messageHandlers s1)(k := None) \<rparr>)"

text \<open>
  Lines 26 to 32 for the stored handler. \<open>None\<close> is the exception of line 28, thrown
  before anything is settled or deleted.
\<close>

definition deliver :: "jsval \<Rightarrow> nat \<Rightarrow> nat \<Rightarrow> state \<Rightarrow> state option" where
  "deliver message k handler s =
     (case response message of
        None \<Rightarrow> None
      | Some v \<Rightarrow> Some (settleEntry v k handler s))"

definition no_match :: "state \<Rightarrow> state" where
  "no_match s = say WARN ''Received WebSocket message with no matching handler or id:'' s"

text \<open>
  The \<^verbatim>\<open>catch\<close> of line 38 takes the exception of \<^verbatim>\<open>JSON.parse\<close>, of reading \<^verbatim>\<open>id\<close>
  from \<^verbatim>\<open>null\<close>, and of line 28.
\<close>

definition handleWebSocketMessage :: "data \<Rightarrow> state \<Rightarrow> state" where
  "handleWebSocketMessage d s0 =
     (let s = say LOG ''WebSocket message received:'' s0;
          caught = say ERROR ''Error parsing WebSocket message or no handler found:'' s
      in case d of
           Malformed \<Rightarrow> caught
         | Decoded message \<Rightarrow>
             (case getProp message ''id'' of
                None \<Rightarrow> caught
              | Some mid \<Rightarrow>
                  if truthy mid then
                    (case key_of mid of
                       None \<Rightarrow> no_match s
                     | Some k \<Rightarrow>
                         (case messageHandlers s k of
                            None \<Rightarrow> no_match s
                          | Some handler \<Rightarrow>
                              (case deliver message k handler s of
                                 None \<Rightarrow> caught
                               | Some s' \<Rightarrow> s')))
                  else no_match s))"

subsection \<open>\<^verbatim>\<open>openWebSocket\<close> and the handlers it installs\<close>

text \<open>Lines 66 to 87: a new transport, in state CONNECTING, bound to the promise \<open>p\<close>.\<close>

definition newAttempt :: "nat \<Rightarrow> state \<Rightarrow> state" where
  "newAttempt p s =
     (let s1 = say LOG ''Attempting to connect to WebSocket:'' s
      in s1\<lparr> sockets := sockets s1 @ [\<lparr> readyState = CONNECTING, attempt = p \<rparr>],
             websocket := Some (length (sockets s1)) \<rparr>)"

text \<open>The four ways through \<^verbatim>\<open>openWebSocket\<close>, in the order of the source.\<close>

datatype branch = ReturnExisting | AlreadyOpen | AlreadyConnecting | NewAttempt

definition open_branch :: "state \<Rightarrow> branch" where
  "open_branch s =
     (case connectionPromise s of
        Some p \<Rightarrow> ReturnExisting
      | None \<Rightarrow>
          (case websocket s of
             None \<Rightarrow> NewAttempt
           | Some k \<Rightarrow>
               if readyState (sockets s ! k) = OPEN then AlreadyOpen
               else if readyState (sockets s ! k) = CONNECTING then AlreadyConnecting
               else NewAttempt))"

text \<open>
  The executor of the promise \<open>p\<close> that line 53 creates. It runs only after line 49 has
  found no connection promise, so \<open>ReturnExisting\<close> does not occur in it.
\<close>

definition executor :: "nat \<Rightarrow> state \<Rightarrow> state" where
  "executor p s =
     (case open_branch s of
        AlreadyOpen \<Rightarrow> s\<lparr> connPromises := settle p (Fulfilled ()) (connPromises s) \<rparr>
      | AlreadyConnecting \<Rightarrow> say LOG ''WebSocket connection is already in progress.'' s
      | NewAttempt \<Rightarrow> newAttempt p s
      | ReturnExisting \<Rightarrow> s)"

definition openWebSocket :: "state \<Rightarrow> nat \<times> state" where
  "openWebSocket s =
     (case connectionPromise s of
        Some p \<Rightarrow> (p, s)
      | None \<Rightarrow>
          (let p = length (connPromises s);
               s1 = executor p (s\<lparr> connPromises := connPromises s @ [Pending] \<rparr>)
           in (p, s1\<lparr> connectionPromise := Some p \<rparr>)))"

definition onopen :: "nat \<Rightarrow> state \<Rightarrow> state" where
  "onopen k s =
     (let s1 = say LOG ''WebSocket connection established.'' s
      in s1\<lparr> connPromises := settle (attempt (sockets s1 ! k)) (Fulfilled ()) (connPromises s1) \<rparr>)"

definition onerror :: "nat \<Rightarrow> nat \<Rightarrow> state \<Rightarrow> state" where
  "onerror k ev s =
     (let s1 = say ERROR ''WebSocket Error:'' s;
          s2 = s1\<lparr> websocket := None, connectionPromise := None \<rparr>
      in s2\<lparr> connPromises :=
               settle (attempt (sockets s2 ! k)) (Rejected (ErrorEvent ev)) (connPromises s2) \<rparr>)"

definition onclose :: "nat \<Rightarrow> state \<Rightarrow> state" where
  "onclose k s =
     (let s1 = say LOG
        ''WebSocket connection closed. It will attempt to reconnect on the next request.'' s
      in s1\<lparr> websocket := None, connectionPromise := None \<rparr>)"

subsection \<open>\<^verbatim>\<open>closeWebSocket\<close>\<close>

text \<open>What \<^verbatim>\<open>close()\<close> does to the ready state of a transport.\<close>

definition closing :: "readyState \<Rightarrow> readyState" where
  "closing r = (if r = CLOSED then CLOSED else CLOSING)"

definition set_readyState :: "nat \<Rightarrow> readyState \<Rightarrow> state \<Rightarrow> state" where
  "set_readyState k r s = s\<lparr> sockets := (sockets s)[k := (sockets s ! k)\<lparr> readyState := r \<rparr>] \<rparr>"

definition closeWebSocket :: "state \<Rightarrow> state" where
  "closeWebSocket s =
     (case websocket s of
        Some k \<Rightarrow>
          (let s1 = say LOG ''Manually closing WebSocket connection.'' s;
               s2 = set_readyState k (closing (readyState (sockets s1 ! k))) s1
           in s2\<lparr> websocket := None, connectionPromise := None \<rparr>)
      | None \<Rightarrow> say LOG ''WebSocket is not connected, no action taken.'' s)"

subsection \<open>\<^verbatim>\<open>sendRequest\<close>\<close>

text \<open>
  \<^verbatim>\<open>++messageId\<close> on a double: the integers up to \<open>2 ^ 53\<close> are exact, and
  \<open>2 ^ 53 + 1\<close> rounds back to \<open>2 ^ 53\<close>, where the counter stays.
\<close>

definition incr :: "nat \<Rightarrow> nat" where
  "incr n = (if n < 2 ^ 53 then n + 1 else n)"

text \<open>The decimal digits of a number, as a template literal prints it.\<close>

fun show_nat :: "nat \<Rightarrow> string" where
  "show_nat n =
     (if n < 10 then [''0123456789'' ! n]
      else show_nat (n div 10) @ [''0123456789'' ! (n mod 10)])"

text \<open>The number that a string of decimal digits denotes.\<close>

definition digit_value :: "char \<Rightarrow> nat" where
  "digit_value c = of_char c - 48"

definition read_nat :: "string \<Rightarrow> nat" where
  "read_nat cs = foldl (\<lambda>a c. 10 * a + digit_value c) 0 cs"

definition timeout_message :: "string \<Rightarrow> nat \<Rightarrow> string" where
  "timeout_message ty n =
     ''Request '' @ [CHR 0x27] @ ty @ [CHR 0x27] @ '' (id: '' @ show_nat n @ '') timed out.''"

text \<open>
  The call itself, up to the \<^verbatim>\<open>await\<close>: the future is created, \<^verbatim>\<open>openWebSocket\<close> runs, and
  the rest of the body waits for the promise it returned.
\<close>

definition sendRequest :: "string \<Rightarrow> jsval \<Rightarrow> state \<Rightarrow> nat \<times> state" where
  "sendRequest ty payload s =
     (let r = length (futures s);
          (p, s1) = openWebSocket (s\<lparr> futures := futures s @ [Pending] \<rparr>)
      in (r, s1\<lparr> awaiting := awaiting s1 @ [(p, ty, payload, r)] \<rparr>))"

definition reject :: "nat \<Rightarrow> reason \<Rightarrow> state \<Rightarrow> state" where
  "reject r e s = s\<lparr> futures := settle r (Rejected e) (futures s) \<rparr>"

text \<open>Lines 110 to 123: the registration step, on the open transport \<open>k\<close>.\<close>

definition register :: "nat \<Rightarrow> string \<Rightarrow> jsval \<Rightarrow> nat \<Rightarrow> state \<Rightarrow> state" where
  "register k ty payload r s =
     (let n = incr (messageId s);
          s1 = s\<lparr> messageId := n \<rparr>;
          s2 = s1\<lparr> messageHandlers := (messageHandlers s1)(n \<mapsto> r) \<rparr>;
          s3 = s2\<lparr> sent := sent s2 @ [(k, n, ty, payload)] \<rparr>;
          s4 = say LOG ''WebSocket request sent:'' s3
      in s4\<lparr> timers := timers s4 @ [(clock s4 + 30000, n, ty, r)] \<rparr>)"

text \<open>Lines 105 to 123: the body after the awaited promise is fulfilled.\<close>

definition afterOpen :: "string \<Rightarrow> jsval \<Rightarrow> nat \<Rightarrow> state \<Rightarrow> state" where
  "afterOpen ty payload r s =
     (case websocket s of
        None \<Rightarrow> reject r (Error (JStr ''WebSocket is not connected.'')) s
      | Some k \<Rightarrow>
          if readyState (sockets s ! k) \<noteq> OPEN
          then reject r (Error (JStr ''WebSocket is not connected.'')) s
          else register k ty payload r s)"

text \<open>
  The body resumes once the awaited promise is settled: fulfilled, it goes on; rejected,
  the \<^verbatim>\<open>catch\<close> of line 125 rejects the future with the same reason.
\<close>

definition resume :: "waiter \<Rightarrow> state \<Rightarrow> state" where
  "resume w s =
     (case w of (p, ty, payload, r) \<Rightarrow>
        (case connPromises s ! p of
           Fulfilled u \<Rightarrow> afterOpen ty payload r s
         | Rejected e \<Rightarrow> reject r e s
         | Pending \<Rightarrow> s))"

text \<open>The callback of line 118.\<close>

definition onTimeout :: "timer \<Rightarrow> state \<Rightarrow> state" where
  "onTimeout t s =
     (case t of (due, n, ty, r) \<Rightarrow>
        if messageHandlers s n \<noteq> None
        then reject r (Error (JStr (timeout_message ty n)))
               (s\<lparr> messageHandlers := (messageHandlers s)(n := None) \<rparr>)
        else s)"

subsection \<open>The event loop\<close>

text \<open>
  One step is one call of an exported function, one resumption of a suspended
  \<^verbatim>\<open>sendRequest\<close> body, one event of a transport, one timer that fires, or time that
  passes. A step that cannot happen is \<open>None\<close>: an event of a transport never created,
  an open event of a transport that is not connecting, a message on a transport that is
  not open, a body resumed before its promise is settled, a timer before it is due.
  Error and close events may reach any transport at any time.
\<close>

datatype event =
    CallOpen
  | CallSend string jsval
  | CallClose
  | Resume waiter
  | SocketOpen nat
  | SocketError nat nat
  | SocketClose nat
  | SocketMessage nat data
  | TimerFires timer
  | Elapse nat

fun step :: "event \<Rightarrow> state \<Rightarrow> state option" where
  "step CallOpen s = Some (snd (openWebSocket s))"
| "step (CallSend ty payload) s = Some (snd (sendRequest ty payload s))"
| "step CallClose s = Some (closeWebSocket s)"
| "step (Resume w) s =
     (if w \<in> set (awaiting s) \<and> fst w < length (connPromises s)
         \<and> connPromises s ! fst w \<noteq> Pending
      then Some (resume w (s\<lparr> awaiting := remove1 w (awaiting s) \<rparr>))
      else None)"
| "step (SocketOpen k) s =
     (if k < length (sockets s) \<and> readyState (sockets s ! k) = CONNECTING
      then Some (onopen k (set_readyState k OPEN s))
      else None)"
| "step (SocketError k ev) s =
     (if k < length (sockets s) then Some (onerror k ev s) else None)"
| "step (SocketClose k) s =
     (if k < length (sockets s) then Some (onclose k (set_readyState k CLOSED s)) else None)"
| "step (SocketMessage k d) s =
     (if k < length (sockets s) \<and> readyState (sockets s ! k) = OPEN
      then Some (handleWebSocketMessage d s)
      else None)"
| "step (TimerFires t) s =
     (if t \<in> set (timers s) \<and> fst t \<le> clock s
      then Some (onTimeout t (s\<lparr> timers := remove1 t (timers s) \<rparr>))
      else None)"
| "step (Elapse d) s = Some (s\<lparr> clock := clock s + d \<rparr>)"

fun exec :: "event list \<Rightarrow> state \<Rightarrow> state option" where
  "exec [] s = Some s"
| "exec (e # es) s = (case step e s of None \<Rightarrow> None | Some s' \<Rightarrow> exec es s')"

subsection \<open>Well-formed states\<close>

text \<open>The components of a suspended body, of a timer and of a frame.\<close>

fun w_promise :: "waiter \<Rightarrow> nat" where
  "w_promise (p, ty, payload, r) = p"

fun w_future :: "waiter \<Rightarrow> nat" where
  "w_future (p, ty, payload, r) = r"

fun t_id :: "timer \<Rightarrow> nat" where
  "t_id (due, n, ty, r) = n"

fun t_future :: "timer \<Rightarrow> nat" where
  "t_future (due, n, ty, r) = r"

fun f_id :: "frame \<Rightarrow> nat" where
  "f_id (k, n, ty, payload) = n"

text \<open>
  Every reference held by the module points at an object that exists, and every
  identifier in the table or in a timer has been produced by the counter.
\<close>

definition idx_ok :: "state \<Rightarrow> bool" where
  "idx_ok s \<longleftrightarrow>
     (\<forall>k. websocket s = Some k \<longrightarrow> k < length (sockets s)) \<and>
     (\<forall>k < length (sockets s). attempt (sockets s ! k) < length (connPromises s)) \<and>
     (\<forall>p. connectionPromise s = Some p \<longrightarrow> p < length (connPromises s)) \<and>
     (\<forall>w \<in> set (awaiting s). w_promise w < length (connPromises s) \<and> w_future w < length (futures s)) \<and>
     (\<forall>t \<in> set (timers s). t_future t < length (futures s) \<and> 0 < t_id t \<and> t_id t \<le> messageId s) \<and>
     (\<forall>n r. messageHandlers s n = Some r \<longrightarrow> r < length (futures s) \<and> 0 < n \<and> n \<le> messageId s)"

text \<open>
  The counter is the number of frames sent, up to \<open>2 ^ 53\<close> where it stays, and the
  \<open>i\<close>-th frame carries the \<open>i\<close>-th value of the counter.
\<close>

definition ids_ok :: "state \<Rightarrow> bool" where
  "ids_ok s \<longleftrightarrow>
     messageId s = min (length (sent s)) (2 ^ 53) \<and>
     (\<forall>i < length (sent s). f_id (sent s ! i) = min (Suc i) (2 ^ 53))"

text \<open>
  The futures of the table entries are pending and pairwise distinct, a timer and the
  entry of its identifier belong to the same future, and the future of a suspended body
  is pending and not yet in the table. This holds as long as no identifier has been given
  out twice, that is, while at most \<open>2 ^ 53\<close> frames have been sent.
\<close>

definition pending_ok :: "state \<Rightarrow> bool" where
  "pending_ok s \<longleftrightarrow>
     (\<forall>n r. messageHandlers s n = Some r \<longrightarrow> futures s ! r = Pending) \<and>
     (\<forall>n m r. messageHandlers s n = Some r \<and> messageHandlers s m = Some r \<longrightarrow> n = m) \<and>
     (\<forall>t \<in> set (timers s). \<forall>r. messageHandlers s (t_id t) = Some r \<longrightarrow> r = t_future t) \<and>
     (\<forall>w \<in> set (awaiting s). futures s ! w_future w = Pending
         \<and> (\<forall>n. messageHandlers s n \<noteq> Some (w_future w))) \<and>
     distinct (map w_future (awaiting s))"

text \<open>
  The two module variables of the connection go together: without a connection promise
  there is no transport handle, and the other way round.
\<close>

definition nulled_together :: "state \<Rightarrow> bool" where
  "nulled_together s \<longleftrightarrow> (connectionPromise s = None \<longrightarrow> websocket s = None)"

definition coupled :: "state \<Rightarrow> bool" where
  "coupled s \<longleftrightarrow> (connectionPromise s = None) = (websocket s = None)"

text \<open>Two runs used as examples: one request sent, then a second one.\<close>

definition one_request :: "event list" where
  "one_request =
     [CallSend ''getToken'' (JObj [(''user'', JStr ''a'')]),
      SocketOpen 0,
      Resume (0, ''getToken'', JObj [(''user'', JStr ''a'')], 0)]"

definition two_requests :: "event list" where
  "two_requests = one_request @ [CallSend ''ping'' JNull, Resume (0, ''ping'', JNull, 1)]"


text \<open>A number of calls of \<^verbatim>\<open>openWebSocket\<close> in a row, with the promises they return.\<close>

fun open_calls :: "nat \<Rightarrow> state \<Rightarrow> nat list \<times> state" where
  "open_calls 0 s = ([], s)"
| "open_calls (Suc n) s =
     (let (p, s1) = openWebSocket s; (ps, s2) = open_calls n s1 in (p # ps, s2))"

text \<open>
  The future of a suspended body is pending, is in no table entry and in no timer, and no
  two suspended bodies share a future.
\<close>

definition waiting_ok :: "state \<Rightarrow> bool" where
  "waiting_ok s \<longleftrightarrow>
     (\<forall>w \<in> set (awaiting s). futures s ! w_future w = Pending
         \<and> (\<forall>n. messageHandlers s n \<noteq> Some (w_future w))
         \<and> (\<forall>t \<in> set (timers s). t_future t \<noteq> w_future w)) \<and>
     distinct (map w_future (awaiting s))"

section \<open>Properties\<close>

subsection \<open>Preservation of well-formedness\<close>

lemmas ops = say_def settleEntry_def deliver_def no_match_def handleWebSocketMessage_def newAttempt_def
  open_branch_def executor_def openWebSocket_def onopen_def onerror_def onclose_def
  set_readyState_def closeWebSocket_def sendRequest_def reject_def register_def
  afterOpen_def resume_def onTimeout_def

lemma length_settle [simp]: "length (settle i v ps) = length ps"
  by (simp add: settle_def)

lemma settle_nth: "j < length ps \<Longrightarrow>
  settle i v ps ! j = (if j = i \<and> ps ! i = Pending then v else ps ! j)"
  by (simp add: settle_def)

lemma attempt_set [simp]:
  "attempt (xs[k := (xs ! k)\<lparr> readyState := r \<rparr>] ! j) = attempt (xs ! j)"
  by (cases "k < length xs") (simp_all add: nth_list_update list_update_beyond)

lemma idx_init: "idx_ok init" by (simp add: idx_ok_def init_def)

lemma idx_open: "idx_ok s \<Longrightarrow> idx_ok (snd (openWebSocket s))"
  by (auto simp: idx_ok_def ops Let_def nth_append split: option.splits branch.splits)

lemma idx_send: "idx_ok s \<Longrightarrow> idx_ok (snd (sendRequest ty pl s))"
  by (auto simp: idx_ok_def ops Let_def nth_append less_Suc_eq split: option.splits branch.splits prod.splits)

lemma idx_close: "idx_ok s \<Longrightarrow> idx_ok (closeWebSocket s)"
  by (auto simp: idx_ok_def ops Let_def nth_list_update split: option.splits)

lemma idx_onopen: "idx_ok s \<Longrightarrow> k < length (sockets s) \<Longrightarrow> idx_ok (onopen k (set_readyState k r s))"
  by (auto simp: idx_ok_def ops Let_def nth_list_update split: option.splits)

lemma idx_onerror: "idx_ok s \<Longrightarrow> idx_ok (onerror k ev s)"
  by (auto simp: idx_ok_def ops Let_def split: option.splits)

lemma idx_onclose: "idx_ok s \<Longrightarrow> idx_ok (onclose k (set_readyState k r s))"
  by (auto simp: idx_ok_def ops Let_def nth_list_update split: option.splits)

lemma idx_message: "idx_ok s \<Longrightarrow> idx_ok (handleWebSocketMessage d s)"
  by (auto simp: idx_ok_def ops Let_def split: option.splits data.splits if_splits)

lemma incr_ge: "n \<le> incr n" by (simp add: incr_def)

lemma idx_reject: "idx_ok s \<Longrightarrow> idx_ok (reject r e s)"
  by (simp add: idx_ok_def reject_def)

lemma idx_register:
  assumes "idx_ok s" "r < length (futures s)" "k < length (sockets s)"
  shows "idx_ok (register k ty payload r s)"
proof -
  have "messageId s \<le> incr (messageId s)" "0 < incr (messageId s)"
    by (simp_all add: incr_def)
  with assms show ?thesis
    by (auto simp: idx_ok_def register_def say_def Let_def) (blast intro: le_trans)+
qed

lemma idx_unwait: "idx_ok s \<Longrightarrow> idx_ok (s\<lparr> awaiting := remove1 w (awaiting s) \<rparr>)"
  by (auto simp: idx_ok_def dest: notin_set_remove1)

lemma idx_afterOpen:
  "idx_ok s \<Longrightarrow> r < length (futures s) \<Longrightarrow> idx_ok (afterOpen ty payload r s)"
  by (auto simp: afterOpen_def idx_reject intro!: idx_register split: option.splits)
    (simp add: idx_ok_def)

lemma idx_resume:
  assumes "idx_ok s" "w \<in> set (awaiting s)"
  shows "idx_ok (resume w (s\<lparr> awaiting := remove1 w (awaiting s) \<rparr>))"
proof -
  obtain p ty payload r where w: "w = (p, ty, payload, r)" by (cases w)
  from assms w have r: "r < length (futures s)" by (auto simp: idx_ok_def)
  let ?s = "s\<lparr> awaiting := remove1 w (awaiting s) \<rparr>"
  have "idx_ok ?s" using assms(1) by (rule idx_unwait)
  moreover have "r < length (futures ?s)" using r by simp
  ultimately show ?thesis
    by (simp add: resume_def w idx_reject idx_afterOpen split: outcome.splits)
qed

lemma idx_timeout: "idx_ok s \<Longrightarrow> idx_ok (onTimeout t (s\<lparr> timers := remove1 t (timers s) \<rparr>))"
  by (cases t) (auto simp: idx_ok_def ops Let_def dest: notin_set_remove1 split: option.splits if_splits)

lemma ids_init: "ids_ok init" by (simp add: ids_ok_def init_def)

lemma pending_init: "pending_ok init" by (simp add: pending_ok_def init_def)

lemma ids_register: "ids_ok s \<Longrightarrow> ids_ok (register k ty payload r s)"
  by (auto simp: ids_ok_def register_def say_def Let_def incr_def nth_append less_Suc_eq min_def)

lemma pending_open: "pending_ok s \<Longrightarrow> pending_ok (snd (openWebSocket s))"
  by (simp add: pending_ok_def ops Let_def split: option.splits branch.splits)

lemma pending_close: "pending_ok s \<Longrightarrow> pending_ok (closeWebSocket s)"
  by (simp add: pending_ok_def ops Let_def split: option.splits)

lemma pending_onopen: "pending_ok s \<Longrightarrow> pending_ok (onopen k (set_readyState k r s))"
  by (simp add: pending_ok_def ops Let_def)

lemma pending_onerror: "pending_ok s \<Longrightarrow> pending_ok (onerror k ev s)"
  by (simp add: pending_ok_def ops Let_def)

lemma pending_onclose: "pending_ok s \<Longrightarrow> pending_ok (onclose k (set_readyState k r s))"
  by (simp add: pending_ok_def ops Let_def)

lemma pending_send: "idx_ok s \<Longrightarrow> pending_ok s \<Longrightarrow> pending_ok (snd (sendRequest ty pl s))"
  by (auto simp: idx_ok_def pending_ok_def ops Let_def nth_append split: option.splits branch.splits prod.splits)

lemma pending_settleEntry:
  "idx_ok s \<Longrightarrow> pending_ok s \<Longrightarrow> messageHandlers s k = Some h \<Longrightarrow> pending_ok (settleEntry v k h s)"
  by (auto simp: idx_ok_def pending_ok_def settleEntry_def Let_def settle_nth)

lemma pending_say: "pending_ok (say l m s) = pending_ok s"
  by (simp add: pending_ok_def say_def)

lemma pending_message: "idx_ok s \<Longrightarrow> pending_ok s \<Longrightarrow> pending_ok (handleWebSocketMessage d s)"
  by (auto simp: handleWebSocketMessage_def deliver_def no_match_def Let_def pending_say
        split: data.splits option.splits intro!: pending_settleEntry)
   (simp_all add: idx_ok_def say_def)

lemma pending_unwait:
  assumes "pending_ok s" "w \<in> set (awaiting s)"
  shows "pending_ok (s\<lparr> awaiting := remove1 w (awaiting s) \<rparr>)
     \<and> futures s ! w_future w = Pending
     \<and> (\<forall>n. messageHandlers s n \<noteq> Some (w_future w))
     \<and> (\<forall>v \<in> set (remove1 w (awaiting s)). w_future v \<noteq> w_future w)"
proof -
  have d: "distinct (map w_future (awaiting s))" using assms(1) by (simp add: pending_ok_def)
  then have d1: "distinct (awaiting s)" by (rule distinct_map [THEN iffD1, THEN conjunct1])
  have inj: "inj_on w_future (set (awaiting s))" using d by (simp add: distinct_map)
  have rest: "set (remove1 w (awaiting s)) = set (awaiting s) - {w}"
    using d1 by (rule set_remove1_eq)
  have "distinct (map w_future (remove1 w (awaiting s)))"
    using d by (simp add: distinct_map rest inj_on_diff)
  moreover have "\<forall>v \<in> set (remove1 w (awaiting s)). w_future v \<noteq> w_future w"
    using inj assms(2) by (auto simp: rest dest: inj_onD)
  ultimately show ?thesis using assms by (auto simp: pending_ok_def rest)
qed

lemma pending_reject:
  assumes "pending_ok s" "\<forall>n. messageHandlers s n \<noteq> Some r"
    "\<forall>v \<in> set (awaiting s). w_future v \<noteq> r"
  shows "pending_ok (reject r e s)"
  using assms by (auto simp: pending_ok_def reject_def settle_def nth_list_update)

lemma register_fields:
  assumes "messageId s < 2 ^ 53"
  shows "messageHandlers (register k ty payload r s) = (messageHandlers s)(Suc (messageId s) \<mapsto> r)"
    and "timers (register k ty payload r s)
           = timers s @ [(clock s + 30000, Suc (messageId s), ty, r)]"
    and "futures (register k ty payload r s) = futures s"
    and "awaiting (register k ty payload r s) = awaiting s"
  using assms by (simp_all add: register_def say_def incr_def Let_def)

lemma pending_register:
  assumes p: "pending_ok s" and i: "idx_ok s" and m: "messageId s < 2 ^ 53"
    and r: "futures s ! r = Pending"
    and nr: "\<forall>n. messageHandlers s n \<noteq> Some r"
    and wr: "\<forall>v \<in> set (awaiting s). w_future v \<noteq> r"
  shows "pending_ok (register k ty payload r s)"
proof -
  let ?n = "Suc (messageId s)"
  have fresh: "messageHandlers s ?n = None"
  proof (cases "messageHandlers s ?n")
    case (Some y)
    with i have "?n \<le> messageId s" unfolding idx_ok_def by blast
    then show ?thesis by simp
  qed simp
  have old: "\<forall>t \<in> set (timers s). t_id t \<noteq> ?n"
  proof
    fix t assume "t \<in> set (timers s)"
    with i have "t_id t \<le> messageId s" unfolding idx_ok_def by blast
    then show "t_id t \<noteq> ?n" by simp
  qed
  from p have c1: "\<forall>n r. messageHandlers s n = Some r \<longrightarrow> futures s ! r = Pending"
    and c2: "\<forall>n m r. messageHandlers s n = Some r \<and> messageHandlers s m = Some r \<longrightarrow> n = m"
    and c3: "\<forall>t \<in> set (timers s). \<forall>r. messageHandlers s (t_id t) = Some r \<longrightarrow> r = t_future t"
    and c4: "\<forall>w \<in> set (awaiting s). futures s ! w_future w = Pending
         \<and> (\<forall>n. messageHandlers s n \<noteq> Some (w_future w))"
    and c5: "distinct (map w_future (awaiting s))"
    unfolding pending_ok_def by blast+
  have d1: "\<forall>n x. ((messageHandlers s)(?n \<mapsto> r)) n = Some x \<longrightarrow> futures s ! x = Pending"
    using c1 r by simp
  have d2: "\<forall>n m x. ((messageHandlers s)(?n \<mapsto> r)) n = Some x
      \<and> ((messageHandlers s)(?n \<mapsto> r)) m = Some x \<longrightarrow> n = m"
    using c2 nr by (simp split: if_splits)
  have d3: "\<forall>t \<in> set (timers s @ [(clock s + 30000, ?n, ty, r)]).
      \<forall>x. ((messageHandlers s)(?n \<mapsto> r)) (t_id t) = Some x \<longrightarrow> x = t_future t"
    using c3 old by simp
  have d4: "\<forall>w \<in> set (awaiting s). futures s ! w_future w = Pending
         \<and> (\<forall>n. ((messageHandlers s)(?n \<mapsto> r)) n \<noteq> Some (w_future w))"
    using c4 wr by auto
  show ?thesis
    unfolding pending_ok_def register_fields [OF m]
    using d1 d2 d3 d4 c5 by blast
qed

lemma pending_timeout:
  assumes "pending_ok s" "idx_ok s" "t \<in> set (timers s)"
  shows "pending_ok (onTimeout t (s\<lparr> timers := remove1 t (timers s) \<rparr>))"
proof -
  obtain due n ty r where t: "t = (due, n, ty, r)" by (cases t)
  let ?s = "s\<lparr> timers := remove1 t (timers s) \<rparr>"
  have p: "pending_ok ?s"
    using assms(1) by (auto simp: pending_ok_def dest: notin_set_remove1)
  show ?thesis
  proof (cases "messageHandlers s n")
    case None
    then show ?thesis using p by (simp add: onTimeout_def t)
  next
    case (Some y)
    have y: "y = r" using assms(1,3) Some by (force simp: pending_ok_def t)
    have other: "\<forall>m r'. m \<noteq> n \<and> messageHandlers s m = Some r' \<longrightarrow> r' \<noteq> r"
      using assms(1) Some y unfolding pending_ok_def by blast
    have wait: "\<forall>w \<in> set (awaiting s). w_future w \<noteq> r"
      using assms(1) Some y unfolding pending_ok_def by blast
    have fl: "futures (onTimeout t ?s) = settle r (Rejected (Error (JStr (timeout_message ty n)))) (futures s)"
      and mh: "messageHandlers (onTimeout t ?s) = (messageHandlers s)(n := None)"
      and aw: "awaiting (onTimeout t ?s) = awaiting s"
      and tm: "timers (onTimeout t ?s) = remove1 t (timers s)"
      using Some by (simp_all add: onTimeout_def t reject_def)
    have st: "\<forall>j. j \<noteq> r \<longrightarrow> settle r (Rejected (Error (JStr (timeout_message ty n)))) (futures s) ! j = futures s ! j"
      by (simp add: settle_def)
    from p have c1: "\<forall>n r. messageHandlers s n = Some r \<longrightarrow> futures s ! r = Pending"
      and c2: "\<forall>n m r. messageHandlers s n = Some r \<and> messageHandlers s m = Some r \<longrightarrow> n = m"
      and c3: "\<forall>t' \<in> set (remove1 t (timers s)). \<forall>r. messageHandlers s (t_id t') = Some r \<longrightarrow> r = t_future t'"
      and c4: "\<forall>w \<in> set (awaiting s). futures s ! w_future w = Pending
           \<and> (\<forall>n. messageHandlers s n \<noteq> Some (w_future w))"
      and c5: "distinct (map w_future (awaiting s))"
      unfolding pending_ok_def by simp_all
    show ?thesis
      unfolding pending_ok_def fl mh aw tm
      using c1 c2 c3 c4 c5 other wait st by (simp split: if_splits)
  qed
qed

subsection \<open>Well-formedness of every reachable state\<close>

lemma exec_snoc:
  "exec (es @ [e]) s = (case exec es s of None \<Rightarrow> None | Some s' \<Rightarrow> step e s')"
  by (induction es arbitrary: s) (simp_all split: option.splits)

lemma handles_message [simp]:
  "websocket (handleWebSocketMessage d s) = websocket s"
  "connectionPromise (handleWebSocketMessage d s) = connectionPromise s"
  "sent (handleWebSocketMessage d s) = sent s"
  "messageId (handleWebSocketMessage d s) = messageId s"
  by (simp_all add: handleWebSocketMessage_def deliver_def settleEntry_def no_match_def say_def Let_def
        split: data.splits option.splits)

lemma handles_resume [simp]:
  "websocket (resume w s) = websocket s"
  "connectionPromise (resume w s) = connectionPromise s"
  by (cases w; simp add: resume_def afterOpen_def register_def reject_def say_def Let_def
        split: outcome.splits option.splits)+

lemma handles_timeout [simp]:
  "websocket (onTimeout t s) = websocket s"
  "connectionPromise (onTimeout t s) = connectionPromise s"
  "sent (onTimeout t s) = sent s"
  "messageId (onTimeout t s) = messageId s"
  by (cases t; simp add: onTimeout_def reject_def)+

lemma handles_send:
  "websocket (snd (sendRequest ty payload s)) = websocket (snd (openWebSocket s))"
  "connectionPromise (snd (sendRequest ty payload s)) = connectionPromise (snd (openWebSocket s))"
  by (simp_all add: sendRequest_def openWebSocket_def executor_def open_branch_def
        newAttempt_def say_def Let_def split: option.splits prod.splits)

lemma step_idx: "idx_ok s \<Longrightarrow> step e s = Some s' \<Longrightarrow> idx_ok s'"
proof (cases e)
  case (Elapse d)
  assume a: "idx_ok s" "step e s = Some s'"
  with Elapse have "s' = s\<lparr> clock := clock s + d \<rparr>" by simp
  with a(1) show ?thesis by (simp add: idx_ok_def)
qed (auto simp: idx_open idx_send idx_close idx_onopen idx_onerror idx_onclose idx_message
       idx_resume idx_timeout split: if_splits)

lemma counter_open [simp]:
  "sent (snd (openWebSocket s)) = sent s"
  "messageId (snd (openWebSocket s)) = messageId s"
  by (simp_all add: openWebSocket_def executor_def open_branch_def newAttempt_def say_def
        Let_def split: option.splits)

lemma counter_send [simp]:
  "sent (snd (sendRequest ty payload s)) = sent s"
  "messageId (snd (sendRequest ty payload s)) = messageId s"
  by (simp_all add: sendRequest_def openWebSocket_def executor_def open_branch_def
        newAttempt_def say_def Let_def split: option.splits prod.splits)

lemma counter_close [simp]:
  "sent (closeWebSocket s) = sent s"
  "messageId (closeWebSocket s) = messageId s"
  by (simp_all add: closeWebSocket_def set_readyState_def say_def Let_def split: option.splits)

lemma counter_events [simp]:
  "sent (onopen k (set_readyState k r s)) = sent s"
  "messageId (onopen k (set_readyState k r s)) = messageId s"
  "sent (onerror k ev s) = sent s"
  "messageId (onerror k ev s) = messageId s"
  "sent (onclose k (set_readyState k r s)) = sent s"
  "messageId (onclose k (set_readyState k r s)) = messageId s"
  by (simp_all add: onopen_def onerror_def onclose_def set_readyState_def say_def Let_def)

lemma ids_same: "sent s' = sent s \<Longrightarrow> messageId s' = messageId s \<Longrightarrow> ids_ok s \<Longrightarrow> ids_ok s'"
  by (simp add: ids_ok_def)

lemma ids_resume: "ids_ok s \<Longrightarrow> ids_ok (resume w (s\<lparr> awaiting := remove1 w (awaiting s) \<rparr>))"
proof -
  assume a: "ids_ok s"
  obtain p ty payload r where w: "w = (p, ty, payload, r)" by (cases w)
  let ?s = "s\<lparr> awaiting := remove1 w (awaiting s) \<rparr>"
  have b: "ids_ok ?s" using a by (simp add: ids_ok_def)
  have c: "ids_ok (reject r e ?s)" for e using b by (simp add: ids_ok_def reject_def)
  have d: "ids_ok (register k ty payload r ?s)" for k using b by (rule ids_register)
  show ?thesis
    using b c d by (simp add: resume_def w afterOpen_def split: outcome.splits option.splits)
qed

lemma step_ids: "ids_ok s \<Longrightarrow> step e s = Some s' \<Longrightarrow> ids_ok s'"
proof (cases e)
  case (Resume w)
  assume "ids_ok s" "step e s = Some s'"
  with Resume show ?thesis by (auto simp: ids_resume split: if_splits)
next
  case (Elapse d)
  assume a: "ids_ok s" "step e s = Some s'"
  with Elapse have "s' = s\<lparr> clock := clock s + d \<rparr>" by simp
  with a(1) show ?thesis by (simp add: ids_ok_def)
qed (auto elim!: ids_same [rotated 2] split: if_splits)

lemma sent_resume:
  "sent (resume w s) = sent s \<or> (\<exists>f. sent (resume w s) = sent s @ [f])"
  by (cases w) (simp add: resume_def afterOpen_def register_def reject_def say_def Let_def
       split: outcome.splits option.splits)

lemma step_sent: "step e s = Some s' \<Longrightarrow> length (sent s) \<le> length (sent s')"
proof (cases e)
  case (Resume w)
  assume "step e s = Some s'"
  with Resume sent_resume [of w "s\<lparr> awaiting := remove1 w (awaiting s) \<rparr>"]
  show ?thesis by (auto split: if_splits)
qed (auto split: if_splits)


lemma sent_register: "sent (register k ty payload r s) = sent s @ [(k, incr (messageId s), ty, payload)]"
  by (simp add: register_def say_def Let_def)

lemma pending_resume:
  assumes i: "idx_ok s" and c: "ids_ok s" and p: "pending_ok s" and w: "w \<in> set (awaiting s)"
    and l: "length (sent (resume w (s\<lparr> awaiting := remove1 w (awaiting s) \<rparr>))) \<le> 2 ^ 53"
  shows "pending_ok (resume w (s\<lparr> awaiting := remove1 w (awaiting s) \<rparr>))"
proof -
  obtain q ty payload r where wq: "w = (q, ty, payload, r)" by (cases w)
  let ?s = "s\<lparr> awaiting := remove1 w (awaiting s) \<rparr>"
  from pending_unwait [OF p w] wq
  have p1: "pending_ok ?s" and r: "futures ?s ! r = Pending"
    and nr: "\<forall>n. messageHandlers ?s n \<noteq> Some r"
    and wr: "\<forall>v \<in> set (awaiting ?s). w_future v \<noteq> r"
    by simp_all
  have i1: "idx_ok ?s" using i by (rule idx_unwait)
  have rej: "pending_ok (reject r e ?s)" for e
    using p1 nr wr by (rule pending_reject)
  show ?thesis
  proof (cases "connPromises s ! q")
    case Pending
    then show ?thesis using p1 by (simp add: resume_def wq)
  next
    case (Rejected e)
    then show ?thesis using rej by (simp add: resume_def wq)
  next
    case (Fulfilled u)
    show ?thesis
    proof (cases "\<exists>k. websocket s = Some k \<and> readyState (sockets s ! k) = OPEN")
      case False
      then show ?thesis using Fulfilled rej
        by (auto simp: resume_def wq afterOpen_def split: option.splits)
    next
      case True
      then obtain k where k: "websocket s = Some k" "readyState (sockets s ! k) = OPEN"
        by blast
      have eq: "resume w ?s = register k ty payload r ?s"
        using Fulfilled k by (simp add: resume_def wq afterOpen_def)
      from l have "Suc (length (sent s)) \<le> 2 ^ 53"
        by (simp add: eq sent_register)
      with c have m: "messageId ?s < 2 ^ 53"
        by (simp add: ids_ok_def)
      from p1 i1 m r nr wr show ?thesis
        unfolding eq by (rule pending_register)
    qed
  qed
qed

lemma step_pending:
  assumes "idx_ok s" "ids_ok s" "pending_ok s" "step e s = Some s'" "length (sent s') \<le> 2 ^ 53"
  shows "pending_ok s'"
proof (cases e)
  case (Resume w)
  with assms show ?thesis by (auto simp: pending_resume split: if_splits)
next
  case (Elapse d)
  with assms(4) have "s' = s\<lparr> clock := clock s + d \<rparr>" by simp
  with assms(3) show ?thesis by (simp add: pending_ok_def)
qed (use assms in \<open>auto simp: pending_open pending_send pending_close pending_onopen
       pending_onerror pending_onclose pending_message pending_timeout split: if_splits\<close>)

lemma reach_wf: "exec es init = Some s \<Longrightarrow> idx_ok s \<and> ids_ok s"
proof (induction es arbitrary: s rule: rev_induct)
  case Nil
  then show ?case using idx_init ids_init by auto
next
  case (snoc e es)
  then show ?case
    by (auto simp: exec_snoc split: option.splits dest: step_idx step_ids)
qed

lemma reach_pending:
  "exec es init = Some s \<Longrightarrow> length (sent s) \<le> 2 ^ 53 \<Longrightarrow> pending_ok s"
proof (induction es arbitrary: s rule: rev_induct)
  case Nil
  then show ?case using pending_init by auto
next
  case (snoc e es)
  from snoc.prems(1) obtain s0 where s0: "exec es init = Some s0" "step e s0 = Some s"
    by (auto simp: exec_snoc split: option.splits)
  from step_sent [OF s0(2)] snoc.prems(2) have "length (sent s0) \<le> 2 ^ 53"
    by simp
  with snoc.IH s0(1) have "pending_ok s0" by blast
  with reach_wf [OF s0(1)] s0(2) snoc.prems(2) show ?case
    by (blast intro: step_pending)
qed

subsection \<open>The handle and the connection promise\<close>

lemma nulled_open: "nulled_together s \<Longrightarrow> nulled_together (snd (openWebSocket s))"
  by (simp add: nulled_together_def openWebSocket_def Let_def split: option.splits)

lemma coupled_open: "coupled s \<Longrightarrow> coupled (snd (openWebSocket s))"
  by (auto simp: coupled_def openWebSocket_def executor_def open_branch_def newAttempt_def
        say_def Let_def split: option.splits)

lemma step_nulled:
  "nulled_together s \<Longrightarrow> step e s = Some s' \<Longrightarrow> nulled_together s'"
proof (cases e)
  case CallOpen
  assume "nulled_together s" "step e s = Some s'"
  with CallOpen show ?thesis using nulled_open by auto
next
  case (CallSend ty payload)
  assume "nulled_together s" "step e s = Some s'"
  with CallSend nulled_open [of s] show ?thesis
    by (auto simp: nulled_together_def handles_send)
qed (auto simp: nulled_together_def closeWebSocket_def onopen_def onerror_def onclose_def
       set_readyState_def say_def Let_def split: option.splits if_splits)

lemma step_coupled:
  "coupled s \<Longrightarrow> step e s = Some s' \<Longrightarrow> coupled s'"
proof (cases e)
  case CallOpen
  assume "coupled s" "step e s = Some s'"
  with CallOpen show ?thesis using coupled_open by auto
next
  case (CallSend ty payload)
  assume "coupled s" "step e s = Some s'"
  with CallSend coupled_open [of s] show ?thesis
    by (auto simp: coupled_def handles_send)
qed (auto simp: coupled_def closeWebSocket_def onopen_def onerror_def onclose_def
       set_readyState_def say_def Let_def split: option.splits if_splits)

lemma reach_coupled: "exec es init = Some s \<Longrightarrow> coupled s"
proof (induction es arbitrary: s rule: rev_induct)
  case Nil
  then show ?case by (auto simp: coupled_def init_def)
next
  case (snoc e es)
  then show ?case by (auto simp: exec_snoc split: option.splits dest: step_coupled)
qed

lemma reach_nulled: "exec es init = Some s \<Longrightarrow> nulled_together s"
  by (drule reach_coupled) (simp add: coupled_def nulled_together_def)

text \<open>
  C10. Every call and every event handler keeps the property that a null connection
  promise comes with a null transport handle. So in every state reached from the initial
  one, \<^verbatim>\<open>openWebSocket\<close> either returns the existing promise or starts a new attempt:
  the branch of its executor for a handle that is already open and the branch for a
  handle that is already connecting are never taken.
\<close>

theorem handle_null_with_promise:
  "(nulled_together s \<and> step e s = Some s' \<longrightarrow> nulled_together s') \<and>
   (exec es init = Some t \<longrightarrow>
      nulled_together t \<and>
      open_branch t = (if connectionPromise t = None then NewAttempt else ReturnExisting))"
proof -
  have "open_branch t = (if connectionPromise t = None then NewAttempt else ReturnExisting)"
    if "nulled_together t"
    using that by (auto simp: nulled_together_def open_branch_def split: option.splits)
  then show ?thesis
    using step_nulled reach_nulled by blast
qed

lemmas run = init_def ops settle_def closing_def incr_def Let_def

theorem handle_null_with_promise_witness:
  "nulled_together init \<and>
   (\<exists>s'. step CallOpen init = Some s' \<and> nulled_together s') \<and>
   (\<exists>t. exec [CallOpen, SocketOpen 0, CallClose] init = Some t \<and>
      nulled_together t \<and> open_branch t = NewAttempt)"
proof -
  have a: "nulled_together init"
    by (simp add: nulled_together_def init_def)
  obtain s' where s': "step CallOpen init = Some s'"
    by simp
  obtain t where t: "exec [CallOpen, SocketOpen 0, CallClose] init = Some t"
    "connectionPromise t = None"
    by (simp add: run)
  note h = handle_null_with_promise [of init CallOpen s' "[CallOpen, SocketOpen 0, CallClose]" t]
  from h a s' have b: "nulled_together s'"
    by blast
  from h t(1) have c: "nulled_together t"
    and d: "open_branch t = (if connectionPromise t = None then NewAttempt else ReturnExisting)"
    by blast+
  from d t(2) have "open_branch t = NewAttempt"
    by (simp only: refl if_True)
  with a s' b t(1) c show ?thesis
    by blast
qed

subsection \<open>\<^verbatim>\<open>closeWebSocket\<close> without a connection\<close>

text \<open>
  C6. In a state reached from the initial one in which there is no transport handle,
  \<^verbatim>\<open>closeWebSocket\<close> takes its \<^verbatim>\<open>else\<close> branch, which cannot throw: it writes one line to
  the console and changes nothing else. The handle and the connection promise are null
  before and after, and the request table and the counter are what they were.
\<close>

theorem closeWebSocket_no_handle:
  assumes "exec es init = Some s" and "websocket s = None"
  shows "closeWebSocket s
           = s\<lparr> console := console s @ [(LOG, ''WebSocket is not connected, no action taken.'')] \<rparr>
       \<and> websocket (closeWebSocket s) = None
       \<and> connectionPromise s = None
       \<and> connectionPromise (closeWebSocket s) = None
       \<and> messageHandlers (closeWebSocket s) = messageHandlers s
       \<and> messageId (closeWebSocket s) = messageId s"
proof -
  from assms have "connectionPromise s = None"
    using reach_coupled [of es s] by (simp add: coupled_def)
  with assms(2) show ?thesis
    by (simp add: closeWebSocket_def say_def)
qed

theorem closeWebSocket_no_handle_witness:
  "\<exists>s. exec [CallOpen, SocketError 0 7] init = Some s \<and> websocket s = None \<and>
     closeWebSocket s
       = s\<lparr> console := console s @ [(LOG, ''WebSocket is not connected, no action taken.'')] \<rparr> \<and>
     connectionPromise (closeWebSocket s) = None \<and>
     messageHandlers (closeWebSocket s) = messageHandlers s \<and>
     messageId (closeWebSocket s) = messageId s"
proof -
  obtain s where s: "exec [CallOpen, SocketError 0 7] init = Some s" "websocket s = None"
    by (simp add: run)
  from closeWebSocket_no_handle [OF s] s show ?thesis by blast
qed

subsection \<open>Frames that hit or miss the table\<close>

lemma key_of_nat [simp]: "key_of (JNum (of_nat n)) = Some n"
  by (simp add: key_of_def)

lemma truthy_nat [simp]: "truthy (JNum (of_nat n)) = (0 < n)"
  by simp

lemma key_truthy: "key_of mid = Some k \<Longrightarrow> 0 < k \<Longrightarrow> truthy mid"
  by (cases mid) (auto simp: key_of_def split: if_splits)

lemma handle_hit:
  assumes "getProp m ''id'' = Some mid" "truthy mid" "key_of mid = Some k"
    "messageHandlers s k = Some h" "response m = Some v"
  shows "handleWebSocketMessage (Decoded m) s
    = s\<lparr> console := console s @ [(LOG, ''WebSocket message received:'')],
          futures := settle h v (futures s),
          messageHandlers := (messageHandlers s)(k := None) \<rparr>"
  using assms
  by (simp add: handleWebSocketMessage_def deliver_def settleEntry_def say_def Let_def)

lemma handle_throw:
  assumes "getProp m ''id'' = Some mid" "truthy mid" "key_of mid = Some k"
    "messageHandlers s k = Some h" "response m = None"
  shows "handleWebSocketMessage (Decoded m) s
    = s\<lparr> console := console s @ [(LOG, ''WebSocket message received:''),
             (ERROR, ''Error parsing WebSocket message or no handler found:'')] \<rparr>"
  using assms
  by (simp add: handleWebSocketMessage_def deliver_def say_def Let_def)


lemma ids_list:
  assumes "ids_ok s" "length (sent s) \<le> 2 ^ 53"
  shows "map f_id (sent s) = [1..<Suc (length (sent s))]"
proof (rule nth_equalityI)
  show "length (map f_id (sent s)) = length [1..<Suc (length (sent s))]"
    by (simp del: upt_Suc)
next
  fix i assume "i < length (map f_id (sent s))"
  then have i: "i < length (sent s)" by simp
  with assms have "f_id (sent s ! i) = Suc i" by (simp add: ids_ok_def min_def)
  with i show "map f_id (sent s) ! i = [1..<Suc (length (sent s))] ! i"
    by (simp add: nth_upt del: upt_Suc)
qed

lemma entry_facts:
  assumes "exec es init = Some s" "length (sent s) \<le> 2 ^ 53" "messageHandlers s k = Some h"
  shows "0 < k" "h < length (futures s)" "futures s ! h = Pending"
    "\<forall>n. messageHandlers s n = Some h \<longrightarrow> n = k"
proof -
  from reach_wf [OF assms(1)] have i: "idx_ok s" by simp
  from reach_pending [OF assms(1,2)] have p: "pending_ok s" .
  from i assms(3) show "0 < k" "h < length (futures s)" unfolding idx_ok_def by blast+
  from p assms(3) show "futures s ! h = Pending" unfolding pending_ok_def by blast
  from p assms(3) show "\<forall>n. messageHandlers s n = Some h \<longrightarrow> n = k"
    unfolding pending_ok_def by blast
qed

lemma run_one:
  "\<exists>s. exec one_request init = Some s \<and> messageHandlers s 1 = Some 0
     \<and> length (sent s) = 1 \<and> futures s = [Pending]
     \<and> timers s = [(30000, 1, ''getToken'', 0)] \<and> clock s = 0
     \<and> sent s = [(0, 1, ''getToken'', JObj [(''user'', JStr ''a'')])]"
  by (simp add: one_request_def run)

lemma run_two:
  "\<exists>s. exec two_requests init = Some s \<and> messageHandlers s 1 = Some 0
     \<and> messageHandlers s 2 = Some 1 \<and> length (sent s) = 2 \<and> messageId s = 2
     \<and> timers s = [(30000, 1, ''getToken'', 0), (30000, 2, ''ping'', 1)]
     \<and> futures s = [Pending, Pending] \<and> clock s = 0"
  by (simp add: two_requests_def one_request_def run)


subsection \<open>Request identifiers\<close>

text \<open>The counter is a double: at \<open>2 ^ 53\<close> another increment leaves it where it is.\<close>

lemma counter_sticks: "incr (2 ^ 53) = 2 ^ 53"
  by (simp add: incr_def)

text \<open>
  C9. The counter counts exactly up to \<open>2 ^ 53\<close>; the statement is for a run that has
  sent at most that many frames, the numeric range of the counter.
  In every state reached from the initial one the counter equals the number of frames
  sent, that is, the number of \<^verbatim>\<open>sendRequest\<close> bodies that reached the registration step;
  the identifiers of the frames, in send order, are \<open>1, 2, 3, \<dots>\<close>, so they increase
  strictly and none occurs twice; no key of the table is above the counter; and the next
  registration raises the counter by one and stores its future under a key that is not
  in the table.
\<close>

theorem identifiers_never_reused:
  assumes "exec es init = Some s" and "length (sent s) \<le> 2 ^ 53"
  shows "messageId s = length (sent s)
       \<and> map f_id (sent s) = [1..<Suc (length (sent s))]
       \<and> sorted_wrt (<) (map f_id (sent s))
       \<and> distinct (map f_id (sent s))
       \<and> (\<forall>n r. messageHandlers s n = Some r \<longrightarrow> n \<le> messageId s)
       \<and> (length (sent s) < 2 ^ 53 \<longrightarrow>
            messageId (register k ty payload r s) = Suc (messageId s)
          \<and> messageHandlers s (Suc (messageId s)) = None
          \<and> sent (register k ty payload r s) = sent s @ [(k, Suc (messageId s), ty, payload)]
          \<and> messageHandlers (register k ty payload r s)
               = (messageHandlers s)(Suc (messageId s) \<mapsto> r))"
proof -
  from reach_wf [OF assms(1)] have i: "idx_ok s" and c: "ids_ok s" by simp_all
  from c assms(2) have m: "messageId s = length (sent s)"
    by (simp add: ids_ok_def)
  have l: "map f_id (sent s) = [1..<Suc (length (sent s))]"
    using c assms(2) by (rule ids_list)
  have srt: "sorted_wrt (<) (map f_id (sent s))" and dst: "distinct (map f_id (sent s))"
    unfolding l by (simp_all del: upt_Suc)
  have dom: "\<forall>n r. messageHandlers s n = Some r \<longrightarrow> n \<le> messageId s"
    using i unfolding idx_ok_def by blast
  have fresh: "messageHandlers s (Suc (messageId s)) = None"
  proof (cases "messageHandlers s (Suc (messageId s))")
    case (Some y)
    with dom have "Suc (messageId s) \<le> messageId s" by blast
    then show ?thesis by simp
  qed simp
  have reg: "messageId (register k ty payload r s) = Suc (messageId s)
      \<and> sent (register k ty payload r s) = sent s @ [(k, Suc (messageId s), ty, payload)]
      \<and> messageHandlers (register k ty payload r s) = (messageHandlers s)(Suc (messageId s) \<mapsto> r)"
    if "length (sent s) < 2 ^ 53"
    using that m by (simp add: register_def say_def incr_def Let_def)
  from m l srt dst dom fresh reg show ?thesis by blast
qed

theorem identifiers_never_reused_witness:
  "\<exists>s. exec two_requests init = Some s \<and> messageId s = 2
     \<and> map f_id (sent s) = [1, 2]
     \<and> sorted_wrt (<) (map f_id (sent s)) \<and> distinct (map f_id (sent s))
     \<and> messageId (register 0 ''next'' JNull 2 s) = 3
     \<and> messageHandlers s 3 = None"
proof -
  from run_two obtain s where s: "exec two_requests init = Some s" "length (sent s) = 2"
    by blast
  from s(2) have b: "length (sent s) \<le> 2 ^ 53" "length (sent s) < 2 ^ 53"
    by simp_all
  note h = identifiers_never_reused [OF s(1) b(1), of 0 "''next''" JNull 2]
  from h have m: "messageId s = length (sent s)"
    by (elim conjE)
  from h have l: "map f_id (sent s) = [1..<Suc (length (sent s))]"
    by (elim conjE)
  from h have o1: "sorted_wrt (<) (map f_id (sent s))"
    by (elim conjE)
  from h have o2: "distinct (map f_id (sent s))"
    by (elim conjE)
  from h b(2) have n1: "messageId (register 0 ''next'' JNull 2 s) = Suc (messageId s)"
    by (elim conjE) (drule (1) mp, elim conjE)
  from h b(2) have n2: "messageHandlers s (Suc (messageId s)) = None"
    by (elim conjE) (drule (1) mp, elim conjE)
  have u: "[1..<Suc 2] = [1, 2::nat]"
    by (simp add: upt_conv_Cons)
  have m2: "messageId s = 2"
    using m s(2) by simp
  have l2: "map f_id (sent s) = [1, 2]"
    unfolding l s(2) by (rule u)
  have n3: "messageId (register 0 ''next'' JNull 2 s) = 3"
    unfolding n1 m2 by simp
  have f3: "messageHandlers s 3 = None"
    using n2 unfolding m2 by simp
  from s(1) m2 l2 o1 o2 n3 f3 show ?thesis
    by (intro exI [of _ s] conjI)
qed

subsection \<open>Responses are matched by identifier\<close>

text \<open>
  C1. In a state reached from the initial one, within the range of the counter, take two
  entries of the table under distinct identifiers \<open>i\<close> and \<open>j\<close>, and a frame for each on
  which line 28 does not throw. Their futures are distinct and pending, and whichever
  frame is delivered first, the future of \<open>i\<close> is settled by the frame whose \<^verbatim>\<open>id\<close> is \<open>i\<close>
  and the future of \<open>j\<close> by the frame whose \<^verbatim>\<open>id\<close> is \<open>j\<close>: resolved with the \<^verbatim>\<open>payload\<close>
  of that frame when the frame has no truthy \<^verbatim>\<open>error\<close>, and rejected with an Error built
  from that \<^verbatim>\<open>error\<close> otherwise.
\<close>

theorem responses_matched_by_identifier:
  assumes "exec es init = Some s" and "length (sent s) \<le> 2 ^ 53"
    and "messageHandlers s i = Some ri" and "messageHandlers s j = Some rj" and "i \<noteq> j"
    and "getProp mi ''id'' = Some (JNum (of_nat i))"
    and "getProp mj ''id'' = Some (JNum (of_nat j))"
    and "response mi = Some oi" and "response mj = Some oj"
  shows "ri \<noteq> rj \<and> futures s ! ri = Pending \<and> futures s ! rj = Pending
     \<and> futures (handleWebSocketMessage (Decoded mj) (handleWebSocketMessage (Decoded mi) s)) ! ri
           = oi
     \<and> futures (handleWebSocketMessage (Decoded mj) (handleWebSocketMessage (Decoded mi) s)) ! rj
           = oj
     \<and> futures (handleWebSocketMessage (Decoded mi) (handleWebSocketMessage (Decoded mj) s)) ! ri
           = oi
     \<and> futures (handleWebSocketMessage (Decoded mi) (handleWebSocketMessage (Decoded mj) s)) ! rj
           = oj
     \<and> oi = (if truthy (readProp mi ''error'') then Rejected (Error (readProp mi ''error''))
             else Fulfilled (readProp mi ''payload''))
     \<and> oj = (if truthy (readProp mj ''error'') then Rejected (Error (readProp mj ''error''))
             else Fulfilled (readProp mj ''payload''))"
proof -
  note a = entry_facts [OF assms(1,2,3)]
  note b = entry_facts [OF assms(1,2,4)]
  have d: "ri \<noteq> rj" using a(4) assms(4,5) by blast
  let ?si = "handleWebSocketMessage (Decoded mi) s"
  let ?sj = "handleWebSocketMessage (Decoded mj) s"
  have si: "?si = s\<lparr> console := console s @ [(LOG, ''WebSocket message received:'')],
          futures := settle ri oi (futures s),
          messageHandlers := (messageHandlers s)(i := None) \<rparr>"
    using a(1) by (intro handle_hit [OF assms(6) _ _ assms(3) assms(8)]) simp_all
  have sj: "?sj = s\<lparr> console := console s @ [(LOG, ''WebSocket message received:'')],
          futures := settle rj oj (futures s),
          messageHandlers := (messageHandlers s)(j := None) \<rparr>"
    using b(1) by (intro handle_hit [OF assms(7) _ _ assms(4) assms(9)]) simp_all
  have ij: "futures (handleWebSocketMessage (Decoded mj) ?si)
      = settle rj oj (settle ri oi (futures s))"
    using b(1) assms(4,5)
    by (subst handle_hit [OF assms(7) _ _ _ assms(9), where k = j and h = rj])
      (simp_all add: si)
  have ji: "futures (handleWebSocketMessage (Decoded mi) ?sj)
      = settle ri oi (settle rj oj (futures s))"
    using a(1) assms(3,5)
    by (subst handle_hit [OF assms(6) _ _ _ assms(8), where k = i and h = ri])
      (simp_all add: sj)
  have "settle rj oj (settle ri oi (futures s)) ! ri = oi"
    "settle rj oj (settle ri oi (futures s)) ! rj = oj"
    "settle ri oi (settle rj oj (futures s)) ! ri = oi"
    "settle ri oi (settle rj oj (futures s)) ! rj = oj"
    using a(2,3) b(2,3) d by (simp_all add: settle_def)
  moreover have "oi = (if truthy (readProp mi ''error'')
        then Rejected (Error (readProp mi ''error'')) else Fulfilled (readProp mi ''payload''))"
    "oj = (if truthy (readProp mj ''error'')
        then Rejected (Error (readProp mj ''error'')) else Fulfilled (readProp mj ''payload''))"
    using assms(8,9) by (auto simp: response_def split: if_splits)
  ultimately show ?thesis
    using d a(3) b(3) by (simp only: ij ji simp_thms)
qed

theorem responses_matched_by_identifier_witness:
  "\<exists>s. exec two_requests init = Some s
     \<and> futures (handleWebSocketMessage (Decoded (JObj [(''id'', JNum 1), (''payload'', JStr ''one'')]))
          (handleWebSocketMessage (Decoded (JObj [(''id'', JNum 2), (''payload'', JStr ''two'')])) s))
         = [Fulfilled (JStr ''one''), Fulfilled (JStr ''two'')]
     \<and> futures (handleWebSocketMessage (Decoded (JObj [(''id'', JNum 2), (''payload'', JStr ''two'')]))
          (handleWebSocketMessage (Decoded (JObj [(''id'', JNum 1), (''payload'', JStr ''one'')])) s))
         = [Fulfilled (JStr ''one''), Fulfilled (JStr ''two'')]"
proof -
  let ?m1 = "JObj [(''id'', JNum 1), (''payload'', JStr ''one'')]"
  let ?m2 = "JObj [(''id'', JNum 2), (''payload'', JStr ''two'')]"
  from run_two obtain s where s: "exec two_requests init = Some s"
    "messageHandlers s 1 = Some 0" "messageHandlers s 2 = Some 1" "length (sent s) = 2"
    "futures s = [Pending, Pending]"
    by blast
  from s(4) have b: "length (sent s) \<le> 2 ^ 53" by simp
  have l: "length (futures (handleWebSocketMessage d (handleWebSocketMessage d' s))) = 2" for d d'
    by (simp add: s(5) handleWebSocketMessage_def deliver_def settleEntry_def no_match_def
          say_def Let_def split: data.splits option.splits)
  have r: "response ?m1 = Some (Fulfilled (JStr ''one''))"
    "response ?m2 = Some (Fulfilled (JStr ''two''))"
    by (simp_all add: response_def readProp_def)
  from responses_matched_by_identifier [OF s(1) b s(2,3) _ _ _ r]
  have "futures (handleWebSocketMessage (Decoded ?m2) (handleWebSocketMessage (Decoded ?m1) s)) ! 0
          = Fulfilled (JStr ''one'')"
    "futures (handleWebSocketMessage (Decoded ?m2) (handleWebSocketMessage (Decoded ?m1) s)) ! 1
          = Fulfilled (JStr ''two'')"
    "futures (handleWebSocketMessage (Decoded ?m1) (handleWebSocketMessage (Decoded ?m2) s)) ! 0
          = Fulfilled (JStr ''one'')"
    "futures (handleWebSocketMessage (Decoded ?m1) (handleWebSocketMessage (Decoded ?m2) s)) ! 1
          = Fulfilled (JStr ''two'')"
    by simp_all
  with l [of "Decoded ?m2" "Decoded ?m1"] l [of "Decoded ?m1" "Decoded ?m2"]
  have "futures (handleWebSocketMessage (Decoded ?m2) (handleWebSocketMessage (Decoded ?m1) s))
          = [Fulfilled (JStr ''one''), Fulfilled (JStr ''two'')]"
    "futures (handleWebSocketMessage (Decoded ?m1) (handleWebSocketMessage (Decoded ?m2) s))
          = [Fulfilled (JStr ''one''), Fulfilled (JStr ''two'')]"
    by (simp_all add: list_eq_iff_nth_eq less_Suc_eq eval_nat_numeral)
  with s(1) show ?thesis by blast
qed

subsection \<open>What a response does to its future\<close>

text \<open>Values that line 28 can and cannot convert to a string.\<close>

lemma convertible_examples:
  "convertible (JStr ''denied'')" "convertible (JNum 404)" "convertible (JBool True)"
  "convertible (JObj [(''code'', JNum 1)])"
  "convertible (JArr [JNull, JStr ''a'', JObj [(''code'', JNum 1)]])"
  "\<not> convertible (JObj [(''toString'', JNum 1)])"
  "\<not> convertible (JArr [JStr ''a'', JObj [(''toString'', JNull)]])"
  "\<not> convertible (JArr [JArr [JObj [(''valueOf'', JNum 1), (''toString'', JStr ''x'')]]])"
  by simp_all

text \<open>
  C3. In a state reached from the initial one, within the range of the counter, a frame
  whose \<^verbatim>\<open>id\<close> hits an entry of the table finds the future of that entry pending. Line 27
  tests the value of the \<^verbatim>\<open>error\<close> property, not its presence. When the \<^verbatim>\<open>error\<close> property
  is truthy and can be converted to a string, as every string, number and boolean can, the
  future is rejected with an Error object built from that value and the entry is deleted.
  When it is truthy and cannot be converted (an object with a \<^verbatim>\<open>toString\<close> property of its
  own, or an array that holds one), line 28 throws into the \<^verbatim>\<open>catch\<close> of line 38: no future
  is settled and the table is left as it is. Otherwise (no \<^verbatim>\<open>error\<close> property, or a falsy
  one such as the empty string) the future is resolved with the \<^verbatim>\<open>payload\<close> property, which
  is \<^verbatim>\<open>undefined\<close> when the frame has none, and the entry is deleted.
\<close>

theorem response_settles_future:
  assumes "exec es init = Some s" and "length (sent s) \<le> 2 ^ 53"
    and "getProp m ''id'' = Some mid" and "key_of mid = Some k"
    and "messageHandlers s k = Some h"
  shows "futures s ! h = Pending
       \<and> (truthy (readProp m ''error'') \<and> convertible (readProp m ''error'') \<longrightarrow>
            futures (handleWebSocketMessage (Decoded m) s) ! h
              = Rejected (Error (readProp m ''error''))
          \<and> messageHandlers (handleWebSocketMessage (Decoded m) s) k = None)
       \<and> (truthy (readProp m ''error'') \<and> \<not> convertible (readProp m ''error'') \<longrightarrow>
            futures (handleWebSocketMessage (Decoded m) s) = futures s
          \<and> messageHandlers (handleWebSocketMessage (Decoded m) s) = messageHandlers s)
       \<and> (\<not> truthy (readProp m ''error'') \<longrightarrow>
            futures (handleWebSocketMessage (Decoded m) s) ! h
              = Fulfilled (readProp m ''payload'')
          \<and> messageHandlers (handleWebSocketMessage (Decoded m) s) k = None)"
proof -
  note e = entry_facts [OF assms(1,2,5)]
  have t: "truthy mid" using assms(4) e(1) by (rule key_truthy)
  have a: "futures (handleWebSocketMessage (Decoded m) s) ! h = v
      \<and> messageHandlers (handleWebSocketMessage (Decoded m) s) k = None"
    if "response m = Some v" for v
    using handle_hit [OF assms(3) t assms(4,5) that] e(2,3) by (simp add: settle_def)
  have b: "futures (handleWebSocketMessage (Decoded m) s) = futures s
      \<and> messageHandlers (handleWebSocketMessage (Decoded m) s) = messageHandlers s"
    if "response m = None"
    using handle_throw [OF assms(3) t assms(4,5) that] by simp
  from e(3) a b show ?thesis
    by (simp add: response_def)
qed

theorem response_settles_future_witness:
  "\<exists>s. exec one_request init = Some s
     \<and> futures (handleWebSocketMessage
           (Decoded (JObj [(''id'', JNum 1), (''payload'', JObj [(''token'', JStr ''xyz'')])])) s) ! 0
         = Fulfilled (JObj [(''token'', JStr ''xyz'')])
     \<and> futures (handleWebSocketMessage
           (Decoded (JObj [(''id'', JNum 1), (''error'', JStr ''denied'')])) s) ! 0
         = Rejected (Error (JStr ''denied''))
     \<and> futures (handleWebSocketMessage
           (Decoded (JObj [(''id'', JNum 1), (''error'', JObj [(''toString'', JNum 1)])])) s)
         = futures s
     \<and> messageHandlers (handleWebSocketMessage
           (Decoded (JObj [(''id'', JNum 1), (''error'', JObj [(''toString'', JNum 1)])])) s)
         = messageHandlers s
     \<and> futures (handleWebSocketMessage
           (Decoded (JObj [(''id'', JNum 1),
              (''error'', JArr [JStr ''a'', JObj [(''toString'', JNull)]])])) s)
         = futures s"
proof -
  from run_one obtain s where s: "exec one_request init = Some s"
    "messageHandlers s 1 = Some 0" "length (sent s) = 1"
    by blast
  from s(3) have b: "length (sent s) \<le> 2 ^ 53" by simp
  have k: "key_of (JNum 1) = Some 1" by (simp add: key_of_def)
  have "futures (handleWebSocketMessage
           (Decoded (JObj [(''id'', JNum 1), (''payload'', JObj [(''token'', JStr ''xyz'')])])) s) ! 0
         = Fulfilled (JObj [(''token'', JStr ''xyz'')])"
    using response_settles_future [OF s(1) b _ k s(2),
        of "JObj [(''id'', JNum 1), (''payload'', JObj [(''token'', JStr ''xyz'')])]"]
    by (simp add: readProp_def)
  moreover have "futures (handleWebSocketMessage
           (Decoded (JObj [(''id'', JNum 1), (''error'', JStr ''denied'')])) s) ! 0
         = Rejected (Error (JStr ''denied''))"
    using response_settles_future [OF s(1) b _ k s(2),
        of "JObj [(''id'', JNum 1), (''error'', JStr ''denied'')]"]
    by (simp add: readProp_def)
  moreover have "futures (handleWebSocketMessage
           (Decoded (JObj [(''id'', JNum 1), (''error'', JObj [(''toString'', JNum 1)])])) s)
         = futures s
     \<and> messageHandlers (handleWebSocketMessage
           (Decoded (JObj [(''id'', JNum 1), (''error'', JObj [(''toString'', JNum 1)])])) s)
         = messageHandlers s"
    using response_settles_future [OF s(1) b _ k s(2),
        of "JObj [(''id'', JNum 1), (''error'', JObj [(''toString'', JNum 1)])]"]
    by (simp add: readProp_def)
  moreover have "futures (handleWebSocketMessage
           (Decoded (JObj [(''id'', JNum 1),
              (''error'', JArr [JStr ''a'', JObj [(''toString'', JNull)]])])) s)
         = futures s"
    using response_settles_future [OF s(1) b _ k s(2),
        of "JObj [(''id'', JNum 1),
              (''error'', JArr [JStr ''a'', JObj [(''toString'', JNull)]])]"]
    by (simp add: readProp_def)
  ultimately show ?thesis using s(1) by blast
qed

text \<open>
  Presence of the property is not enough for a rejection: after one request, the frame
  \<^verbatim>\<open>{"id": 1, "error": "", "payload": "ok"}\<close> has an \<^verbatim>\<open>error\<close> property, and the pending
  future of request 1 is resolved with \<^verbatim>\<open>"ok"\<close>.
\<close>

theorem empty_error_is_resolved:
  "exec one_request init \<noteq> None
   \<and> messageHandlers (the (exec one_request init)) 1 = Some 0
   \<and> futures (the (exec one_request init)) ! 0 = Pending
   \<and> getProp (JObj [(''id'', JNum 1), (''error'', JStr []), (''payload'', JStr ''ok'')]) ''error''
       = Some (JStr [])
   \<and> futures (handleWebSocketMessage
         (Decoded (JObj [(''id'', JNum 1), (''error'', JStr []), (''payload'', JStr ''ok'')]))
         (the (exec one_request init))) ! 0
       = Fulfilled (JStr ''ok'')"
  by (simp add: one_request_def run key_of_def response_def readProp_def)

subsection \<open>Timeouts\<close>

text \<open>
  \<open>show_nat\<close> writes a number in decimal: reading the digits back gives the number, so
  different identifiers are printed differently.
\<close>

lemma digit_nth: "d < 10 \<Longrightarrow> digit_value (''0123456789'' ! d) = d"
proof -
  assume "d < 10"
  then have "d \<in> {0, 1, 2, 3, 4, 5, 6, 7, 8, 9}" by auto
  then show ?thesis by (auto simp: digit_value_def)
qed

lemma read_show: "read_nat (show_nat n) = n"
proof (induction n rule: show_nat.induct)
  case (1 n)
  show ?case
  proof (cases "n < 10")
    case True
    then show ?thesis by (simp add: read_nat_def digit_nth)
  next
    case False
    have m: "n mod 10 < 10" by simp
    from False have "show_nat n = show_nat (n div 10) @ [''0123456789'' ! (n mod 10)]"
      by (subst show_nat.simps) simp
    then have "read_nat (show_nat n)
        = 10 * read_nat (show_nat (n div 10)) + digit_value (''0123456789'' ! (n mod 10))"
      by (simp add: read_nat_def)
    also have "\<dots> = 10 * (n div 10) + n mod 10"
      using "1.IH" [OF False] digit_nth [OF m] by simp
    finally show ?thesis by simp
  qed
qed

lemma show_nat_inj: "show_nat m = show_nat n \<Longrightarrow> m = n"
  using read_show [of m] read_show [of n] by simp


lemma timeout_message_example:
  "timeout_message ''getToken'' 12
     = ''Request '' @ [CHR 0x27] @ ''getToken'' @ [CHR 0x27] @ '' (id: 12) timed out.''"
  by (simp add: timeout_message_def)



subsection \<open>One transport per connection attempt\<close>

lemma open_existing: "connectionPromise s = Some p \<Longrightarrow> openWebSocket s = (p, s)"
  by (simp add: openWebSocket_def)

lemma open_fresh:
  assumes "connectionPromise s = None" "websocket s = None"
  shows "openWebSocket s = (length (connPromises s),
     s\<lparr> connPromises := connPromises s @ [Pending],
        console := console s @ [(LOG, ''Attempting to connect to WebSocket:'')],
        sockets := sockets s @ [\<lparr> readyState = CONNECTING, attempt = length (connPromises s) \<rparr>],
        websocket := Some (length (sockets s)),
        connectionPromise := Some (length (connPromises s)) \<rparr>)"
  using assms
  by (simp add: openWebSocket_def executor_def open_branch_def newAttempt_def say_def Let_def)

lemma open_calls_existing:
  "connectionPromise s = Some p \<Longrightarrow> open_calls n s = (replicate n p, s)"
  by (induction n) (simp_all add: open_existing)

text \<open>
  C2. While a connection promise exists, whether it is still pending or already settled,
  a call of \<^verbatim>\<open>openWebSocket\<close> returns that promise and changes nothing, and so does any
  number of calls in a row: no transport is created. In a state reached from the initial
  one that has no connection promise, any number of calls in a row create one promise and
  one transport between them: the first call creates both, and every call returns the
  same promise, so all the callers are settled by the one outcome of that promise.
\<close>

theorem one_transport_per_attempt:
  "(connectionPromise s = Some p \<longrightarrow>
       openWebSocket s = (p, s) \<and> open_calls n s = (replicate n p, s)) \<and>
   (exec es init = Some t \<and> connectionPromise t = None \<longrightarrow>
       fst (open_calls (Suc n) t) = replicate (Suc n) (length (connPromises t))
     \<and> sockets (snd (open_calls (Suc n) t))
         = sockets t @ [\<lparr> readyState = CONNECTING, attempt = length (connPromises t) \<rparr>]
     \<and> connPromises (snd (open_calls (Suc n) t)) = connPromises t @ [Pending]
     \<and> connectionPromise (snd (open_calls (Suc n) t)) = Some (length (connPromises t))
     \<and> websocket (snd (open_calls (Suc n) t)) = Some (length (sockets t)))"
proof -
  have "fst (open_calls (Suc n) t) = replicate (Suc n) (length (connPromises t))
     \<and> sockets (snd (open_calls (Suc n) t))
         = sockets t @ [\<lparr> readyState = CONNECTING, attempt = length (connPromises t) \<rparr>]
     \<and> connPromises (snd (open_calls (Suc n) t)) = connPromises t @ [Pending]
     \<and> connectionPromise (snd (open_calls (Suc n) t)) = Some (length (connPromises t))
     \<and> websocket (snd (open_calls (Suc n) t)) = Some (length (sockets t))"
    if r: "exec es init = Some t" and c: "connectionPromise t = None"
  proof -
    from reach_coupled [OF r] c have w: "websocket t = None"
      by (simp add: coupled_def)
    show ?thesis
      by (simp add: open_fresh [OF c w] open_calls_existing)
  qed
  then show ?thesis
    by (simp add: open_existing open_calls_existing)
qed

theorem one_transport_per_attempt_witness:
  "(\<exists>s. exec [CallOpen, SocketOpen 0] init = Some s \<and> connectionPromise s = Some 0
      \<and> openWebSocket s = (0, s)
      \<and> open_calls (Suc (Suc (Suc 0))) s = ([0, 0, 0], s))
   \<and> fst (open_calls (Suc (Suc (Suc 0))) init) = [0, 0, 0]
   \<and> sockets (snd (open_calls (Suc (Suc (Suc 0))) init))
       = [\<lparr> readyState = CONNECTING, attempt = 0 \<rparr>]"
proof -
  obtain s where s: "exec [CallOpen, SocketOpen 0] init = Some s" "connectionPromise s = Some 0"
    by (simp add: run)
  have i: "exec [] init = Some init" "connectionPromise init = None"
    "connPromises init = []" "sockets init = []"
    by (simp_all add: init_def)
  note h = one_transport_per_attempt [of s 0 "Suc (Suc (Suc 0))" "[]" init]
  note h' = one_transport_per_attempt [of s 0 "Suc (Suc 0)" "[]" init]
  from h s(2) have a: "openWebSocket s = (0, s)"
    "open_calls (Suc (Suc (Suc 0))) s = (replicate (Suc (Suc (Suc 0))) 0, s)"
    by blast+
  from h' i(1,2) have b:
    "fst (open_calls (Suc (Suc (Suc 0))) init)
       = replicate (Suc (Suc (Suc 0))) (length (connPromises init))"
    "sockets (snd (open_calls (Suc (Suc (Suc 0))) init))
       = sockets init @ [\<lparr> readyState = CONNECTING, attempt = length (connPromises init) \<rparr>]"
    by blast+
  from a(2) have a2: "open_calls (Suc (Suc (Suc 0))) s = ([0, 0, 0], s)"
    by simp
  from b have b2: "fst (open_calls (Suc (Suc (Suc 0))) init) = [0, 0, 0]"
    "sockets (snd (open_calls (Suc (Suc (Suc 0))) init))
       = [\<lparr> readyState = CONNECTING, attempt = 0 \<rparr>]"
    unfolding i(3,4) by simp_all
  from s a(1) a2 b2 show ?thesis
    by (intro conjI exI [of _ s])
qed

subsection \<open>A transport error during a connection attempt\<close>

text \<open>
  C5. In a state reached from the initial one, let a transport signal an error while the
  connection promise of its attempt is pending. Then the handle and the connection
  promise are both null afterwards and that promise is rejected with the error event. The
  next \<^verbatim>\<open>openWebSocket\<close> returns a promise that did not exist before and creates one new
  transport, in state CONNECTING and bound to the new promise, which becomes the handle;
  the next \<^verbatim>\<open>sendRequest\<close> creates that new transport as well.
\<close>

theorem error_resets_connection:
  assumes "exec es init = Some s" and "k < length (sockets s)"
    and "connPromises s ! attempt (sockets s ! k) = Pending"
  shows "step (SocketError k ev) s = Some (onerror k ev s)
       \<and> websocket (onerror k ev s) = None
       \<and> connectionPromise (onerror k ev s) = None
       \<and> connPromises (onerror k ev s) ! attempt (sockets s ! k) = Rejected (ErrorEvent ev)
       \<and> attempt (sockets s ! k) < length (connPromises s)
       \<and> fst (openWebSocket (onerror k ev s)) = length (connPromises s)
       \<and> sockets (snd (openWebSocket (onerror k ev s)))
           = sockets s @ [\<lparr> readyState = CONNECTING, attempt = length (connPromises s) \<rparr>]
       \<and> websocket (snd (openWebSocket (onerror k ev s))) = Some (length (sockets s))
       \<and> connectionPromise (snd (openWebSocket (onerror k ev s))) = Some (length (connPromises s))
       \<and> sockets (snd (sendRequest ty payload (onerror k ev s)))
           = sockets s @ [\<lparr> readyState = CONNECTING, attempt = length (connPromises s) \<rparr>]"
proof -
  from reach_wf [OF assms(1)] assms(2) have a: "attempt (sockets s ! k) < length (connPromises s)"
    unfolding idx_ok_def by blast
  let ?s = "onerror k ev s"
  have n: "connectionPromise ?s = None" "websocket ?s = None"
    and l: "length (connPromises ?s) = length (connPromises s)" "sockets ?s = sockets s"
    by (simp_all add: onerror_def say_def Let_def)
  have rj: "connPromises ?s ! attempt (sockets s ! k) = Rejected (ErrorEvent ev)"
    using a assms(3) by (simp add: onerror_def say_def Let_def settle_def)
  let ?t = "?s\<lparr> futures := futures ?s @ [Pending] \<rparr>"
  have nt: "connectionPromise ?t = None" "websocket ?t = None"
    using n by simp_all
  have sr: "sockets (snd (sendRequest ty payload ?s))
           = sockets s @ [\<lparr> readyState = CONNECTING, attempt = length (connPromises s) \<rparr>]"
    by (simp add: sendRequest_def open_fresh [OF nt] l Let_def)
  show ?thesis
    using assms(2) a rj sr by (simp add: open_fresh [OF n] l n)
qed

theorem error_resets_connection_witness:
  "\<exists>s. exec [CallOpen] init = Some s
     \<and> websocket s = Some 0 \<and> connectionPromise s = Some 0
     \<and> websocket (onerror 0 7 s) = None
     \<and> connectionPromise (onerror 0 7 s) = None
     \<and> connPromises (onerror 0 7 s) ! 0 = Rejected (ErrorEvent 7)
     \<and> fst (openWebSocket (onerror 0 7 s)) = 1
     \<and> sockets (snd (openWebSocket (onerror 0 7 s)))
         = sockets s @ [\<lparr> readyState = CONNECTING, attempt = 1 \<rparr>]
     \<and> websocket (snd (openWebSocket (onerror 0 7 s))) = Some 1"
proof -
  obtain s where s: "exec [CallOpen] init = Some s" "websocket s = Some 0"
    "connectionPromise s = Some 0" "length (sockets s) = 1" "length (connPromises s) = 1"
    "attempt (sockets s ! 0) = 0" "connPromises s ! 0 = Pending"
    by (simp add: run)
  have k: "0 < length (sockets s)" using s(4) by simp
  have p: "connPromises s ! attempt (sockets s ! 0) = Pending" using s(6,7) by simp
  note h = error_resets_connection [OF s(1) k p, of 7 "''getToken''" JNull]
  from h have "websocket (onerror 0 7 s) = None" "connectionPromise (onerror 0 7 s) = None"
    "connPromises (onerror 0 7 s) ! attempt (sockets s ! 0) = Rejected (ErrorEvent 7)"
    "fst (openWebSocket (onerror 0 7 s)) = length (connPromises s)"
    "sockets (snd (openWebSocket (onerror 0 7 s)))
       = sockets s @ [\<lparr> readyState = CONNECTING, attempt = length (connPromises s) \<rparr>]"
    "websocket (snd (openWebSocket (onerror 0 7 s))) = Some (length (sockets s))"
    by blast+
  then have "websocket (onerror 0 7 s) = None" "connectionPromise (onerror 0 7 s) = None"
    "connPromises (onerror 0 7 s) ! 0 = Rejected (ErrorEvent 7)"
    "fst (openWebSocket (onerror 0 7 s)) = 1"
    "sockets (snd (openWebSocket (onerror 0 7 s)))
       = sockets s @ [\<lparr> readyState = CONNECTING, attempt = 1 \<rparr>]"
    "websocket (snd (openWebSocket (onerror 0 7 s))) = Some 1"
    unfolding s(4,5,6) by simp_all
  with s(1,2,3) show ?thesis
    by (intro conjI exI [of _ s])
qed

subsection \<open>A request whose connection attempt fails\<close>

lemma waiting_init: "waiting_ok init"
  by (simp add: waiting_ok_def init_def)

lemma waiting_same:
  assumes "waiting_ok s" "awaiting s' = awaiting s" "futures s' = futures s"
    "messageHandlers s' = messageHandlers s" "timers s' = timers s"
  shows "waiting_ok s'"
  using assms by (simp add: waiting_ok_def)

lemma quiet_open [simp]:
  "awaiting (snd (openWebSocket s)) = awaiting s"
  "futures (snd (openWebSocket s)) = futures s"
  "messageHandlers (snd (openWebSocket s)) = messageHandlers s"
  "timers (snd (openWebSocket s)) = timers s"
  by (simp_all add: openWebSocket_def executor_def open_branch_def newAttempt_def say_def
        Let_def split: option.splits)

lemma quiet_close [simp]:
  "awaiting (closeWebSocket s) = awaiting s"
  "futures (closeWebSocket s) = futures s"
  "messageHandlers (closeWebSocket s) = messageHandlers s"
  "timers (closeWebSocket s) = timers s"
  by (simp_all add: closeWebSocket_def set_readyState_def say_def Let_def split: option.splits)

lemma quiet_events [simp]:
  "awaiting (onopen k (set_readyState k r s)) = awaiting s"
  "futures (onopen k (set_readyState k r s)) = futures s"
  "messageHandlers (onopen k (set_readyState k r s)) = messageHandlers s"
  "timers (onopen k (set_readyState k r s)) = timers s"
  "awaiting (onerror k ev s) = awaiting s"
  "futures (onerror k ev s) = futures s"
  "messageHandlers (onerror k ev s) = messageHandlers s"
  "timers (onerror k ev s) = timers s"
  "awaiting (onclose k (set_readyState k r s)) = awaiting s"
  "futures (onclose k (set_readyState k r s)) = futures s"
  "messageHandlers (onclose k (set_readyState k r s)) = messageHandlers s"
  "timers (onclose k (set_readyState k r s)) = timers s"
  by (simp_all add: onopen_def onerror_def onclose_def set_readyState_def say_def Let_def)

lemma send_fields:
  "awaiting (snd (sendRequest ty payload s))
     = awaiting s @ [(fst (openWebSocket (s\<lparr> futures := futures s @ [Pending] \<rparr>)),
                      ty, payload, length (futures s))]"
  "futures (snd (sendRequest ty payload s)) = futures s @ [Pending]"
  "messageHandlers (snd (sendRequest ty payload s)) = messageHandlers s"
  "timers (snd (sendRequest ty payload s)) = timers s"
  "fst (sendRequest ty payload s) = length (futures s)"
  by (simp_all add: sendRequest_def openWebSocket_def executor_def open_branch_def
        newAttempt_def say_def Let_def split: option.splits prod.splits)

lemma waiting_send:
  assumes i: "idx_ok s" and w: "waiting_ok s"
  shows "waiting_ok (snd (sendRequest ty payload s))"
proof -
  have a: "\<forall>v \<in> set (awaiting s). w_future v < length (futures s)"
    and b: "\<forall>n r. messageHandlers s n = Some r \<longrightarrow> r < length (futures s)"
    and c: "\<forall>t \<in> set (timers s). t_future t < length (futures s)"
    using i unfolding idx_ok_def by blast+
  have d: "length (futures s) \<notin> w_future ` set (awaiting s)"
    using a by auto
  have e: "\<forall>n. messageHandlers s n \<noteq> Some (length (futures s))"
    using b by auto
  have f: "\<forall>t \<in> set (timers s). t_future t \<noteq> length (futures s)"
    using c by auto
  show ?thesis
    unfolding waiting_ok_def send_fields
    using w a d e f by (auto simp: waiting_ok_def nth_append)
qed

lemma waiting_message:
  assumes i: "idx_ok s" and w: "waiting_ok s"
  shows "waiting_ok (handleWebSocketMessage d s)"
proof -
  have dl: "waiting_ok (settleEntry v k h s)" if "messageHandlers s k = Some h" for v k h
  proof -
    have "\<forall>v \<in> set (awaiting s). w_future v \<noteq> h"
      using w that unfolding waiting_ok_def by blast
    then show ?thesis
      using w by (auto simp: waiting_ok_def settleEntry_def Let_def settle_def nth_list_update)
  qed
  have sy: "waiting_ok (say l m t) = waiting_ok t" for l m t
    by (simp add: waiting_ok_def say_def)
  have dl': "waiting_ok (settleEntry v k h (say l x s))" if "messageHandlers s k = Some h" for v k h l x
    using dl [OF that, of v] by (simp add: waiting_ok_def settleEntry_def say_def Let_def)
  show ?thesis
    using w dl' by (simp add: handleWebSocketMessage_def deliver_def no_match_def Let_def sy
        split: data.splits option.splits) (simp add: say_def)
qed

lemma waiting_timeout:
  assumes w: "waiting_ok s" and t: "t \<in> set (timers s)"
  shows "waiting_ok (onTimeout t (s\<lparr> timers := remove1 t (timers s) \<rparr>))"
proof -
  obtain due n ty r where tq: "t = (due, n, ty, r)" by (cases t)
  have a: "\<forall>v \<in> set (awaiting s). w_future v \<noteq> r"
    using w t unfolding waiting_ok_def tq by force
  have b: "\<forall>x \<in> set (remove1 t (timers s)). x \<in> set (timers s)"
    using set_remove1_subset [of t "timers s"] by blast
  show ?thesis
    using w a b
    by (auto simp: waiting_ok_def tq onTimeout_def reject_def settle_def nth_list_update)
qed

lemma waiting_unwait:
  assumes "waiting_ok s" "w \<in> set (awaiting s)"
  shows "waiting_ok (s\<lparr> awaiting := remove1 w (awaiting s) \<rparr>)"
    and "futures s ! w_future w = Pending"
    and "\<forall>v \<in> set (remove1 w (awaiting s)). w_future v \<noteq> w_future w"
proof -
  have d: "distinct (map w_future (awaiting s))" using assms(1) by (simp add: waiting_ok_def)
  then have d1: "distinct (awaiting s)" by (rule distinct_map [THEN iffD1, THEN conjunct1])
  have inj: "inj_on w_future (set (awaiting s))" using d by (simp add: distinct_map)
  have rest: "set (remove1 w (awaiting s)) = set (awaiting s) - {w}"
    using d1 by (rule set_remove1_eq)
  have d2: "distinct (map w_future (remove1 w (awaiting s)))"
    using d by (simp add: distinct_map rest inj_on_diff)
  show "\<forall>v \<in> set (remove1 w (awaiting s)). w_future v \<noteq> w_future w"
    using inj assms(2) by (auto simp: rest dest: inj_onD)
  show "futures s ! w_future w = Pending"
    using assms unfolding waiting_ok_def by blast
  show "waiting_ok (s\<lparr> awaiting := remove1 w (awaiting s) \<rparr>)"
    using assms(1) d2 by (simp add: waiting_ok_def rest)
qed

lemma waiting_reject:
  assumes "waiting_ok s" "\<forall>v \<in> set (awaiting s). w_future v \<noteq> r"
  shows "waiting_ok (reject r e s)"
  using assms by (auto simp: waiting_ok_def reject_def settle_def nth_list_update)

lemma waiting_register:
  assumes "waiting_ok s" "\<forall>v \<in> set (awaiting s). w_future v \<noteq> r"
  shows "waiting_ok (register k ty payload r s)"
  using assms by (auto simp: waiting_ok_def register_def say_def Let_def)

lemma waiting_resume:
  assumes "waiting_ok s" "w \<in> set (awaiting s)"
  shows "waiting_ok (resume w (s\<lparr> awaiting := remove1 w (awaiting s) \<rparr>))"
proof -
  obtain p ty payload r where wq: "w = (p, ty, payload, r)" by (cases w)
  let ?s = "s\<lparr> awaiting := remove1 w (awaiting s) \<rparr>"
  from waiting_unwait [OF assms] wq
  have a: "waiting_ok ?s" and b: "\<forall>v \<in> set (awaiting ?s). w_future v \<noteq> r"
    by simp_all
  have "waiting_ok (reject r e ?s)" "waiting_ok (register k ty payload r ?s)" for e k
    using a b by (rule waiting_reject, rule waiting_register)
  with a show ?thesis
    by (simp add: resume_def wq afterOpen_def split: outcome.splits option.splits)
qed

lemma step_waiting:
  assumes "idx_ok s" "waiting_ok s" "step e s = Some s'"
  shows "waiting_ok s'"
proof (cases e)
  case (CallSend ty payload)
  with assms show ?thesis by (auto simp: waiting_send)
next
  case (Resume w)
  with assms show ?thesis by (auto simp: waiting_resume split: if_splits)
next
  case (SocketMessage k d)
  with assms show ?thesis by (auto simp: waiting_message split: if_splits)
next
  case (TimerFires t)
  with assms show ?thesis by (auto simp: waiting_timeout split: if_splits)
next
  case (Elapse d)
  with assms(3) have "s' = s\<lparr> clock := clock s + d \<rparr>" by simp
  with assms(2) show ?thesis by (simp add: waiting_ok_def)
qed (use assms in \<open>auto elim!: waiting_same split: if_splits\<close>)

lemma reach_waiting: "exec es init = Some s \<Longrightarrow> waiting_ok s"
proof (induction es arbitrary: s rule: rev_induct)
  case Nil
  then show ?case using waiting_init by auto
next
  case (snoc e es)
  from snoc.prems obtain s0 where s0: "exec es init = Some s0" "step e s0 = Some s"
    by (auto simp: exec_snoc split: option.splits)
  from reach_wf [OF s0(1)] snoc.IH [OF s0(1)] s0(2) show ?case
    by (blast intro: step_waiting)
qed

text \<open>
  C7. The call of \<^verbatim>\<open>sendRequest\<close> itself leaves the table and the counter as they are. In
  a state reached from the initial one, when the promise that a suspended body awaits is
  rejected with \<open>e\<close>, the body can resume; its future was pending until then and is
  rejected with the same \<open>e\<close>; the table, the counter, the frames sent and the timers are
  what they were before.
\<close>

theorem rejected_connection_propagates:
  assumes "exec es init = Some s" and "(p, ty, payload, r) \<in> set (awaiting s)"
    and "connPromises s ! p = Rejected e"
    and "s' = resume (p, ty, payload, r)
                (s\<lparr> awaiting := remove1 (p, ty, payload, r) (awaiting s) \<rparr>)"
  shows "step (Resume (p, ty, payload, r)) s = Some s'
       \<and> futures s ! r = Pending
       \<and> futures s' ! r = Rejected e
       \<and> messageHandlers s' = messageHandlers s
       \<and> messageId s' = messageId s
       \<and> sent s' = sent s \<and> timers s' = timers s
       \<and> messageHandlers (snd (sendRequest ty' payload' s)) = messageHandlers s
       \<and> messageId (snd (sendRequest ty' payload' s)) = messageId s"
proof -
  from reach_wf [OF assms(1)] assms(2)
  have i: "p < length (connPromises s)" "r < length (futures s)"
    unfolding idx_ok_def by force+
  from waiting_unwait(2) [OF reach_waiting [OF assms(1)] assms(2)]
  have pend: "futures s ! r = Pending" by simp
  have st: "step (Resume (p, ty, payload, r)) s = Some s'"
    using assms(2,3,4) i(1) by simp
  have s': "s' = s\<lparr> awaiting := remove1 (p, ty, payload, r) (awaiting s),
                    futures := (futures s)[r := Rejected e] \<rparr>"
    using assms(3) i(2) pend by (simp add: assms(4) resume_def reject_def settle_def)
  show ?thesis
    using st pend i(2) by (simp add: s' send_fields)
qed

theorem rejected_connection_propagates_witness:
  "\<exists>s s'. exec [CallSend ''getToken'' JNull, SocketError 0 7] init = Some s
     \<and> step (Resume (0, ''getToken'', JNull, 0)) s = Some s'
     \<and> futures s = [Pending]
     \<and> futures s' = [Rejected (ErrorEvent 7)]
     \<and> messageHandlers s' = messageHandlers s
     \<and> messageId s' = messageId s"
proof -
  obtain s where s: "exec [CallSend ''getToken'' JNull, SocketError 0 7] init = Some s"
    "awaiting s = [(0, ''getToken'', JNull, 0)]" "connPromises s = [Rejected (ErrorEvent 7)]"
    "futures s = [Pending]"
    by (simp add: run)
  let ?w = "(0, ''getToken'', JNull, 0) :: waiter"
  let ?s' = "resume ?w (s\<lparr> awaiting := remove1 ?w (awaiting s) \<rparr>)"
  have a: "?w \<in> set (awaiting s)" using s(2) by simp
  have b: "connPromises s ! 0 = Rejected (ErrorEvent 7)" using s(3) by simp
  note h = rejected_connection_propagates [OF s(1) a b refl, of "''x''" JNull]
  from h have c: "step (Resume ?w) s = Some ?s'" "futures ?s' ! 0 = Rejected (ErrorEvent 7)"
    "messageHandlers ?s' = messageHandlers s" "messageId ?s' = messageId s"
    by blast+
  have "length (futures ?s') = 1"
    using s(4) by (simp add: resume_def reject_def afterOpen_def register_def say_def Let_def
        split: outcome.splits option.splits)
  with c(2) have d: "futures ?s' = [Rejected (ErrorEvent 7)]"
    by (cases "futures ?s'") simp_all
  from s(1) c(1) s(4) d c(3,4) show ?thesis
    by (intro conjI exI [of _ s] exI [of _ ?s'])
qed

subsection \<open>Pending requests survive a disconnect\<close>

lemma table_message:
  assumes "messageHandlers (handleWebSocketMessage d s) n \<noteq> messageHandlers s n"
  shows "\<exists>m mid. d = Decoded m \<and> getProp m ''id'' = Some mid \<and> key_of mid = Some n"
  using assms
  by (auto simp: handleWebSocketMessage_def deliver_def settleEntry_def no_match_def say_def Let_def
        split: data.splits option.splits if_splits)

lemma table_timeout:
  assumes "messageHandlers (onTimeout t s) n \<noteq> messageHandlers s n"
  shows "t_id t = n"
  using assms by (cases t) (auto simp: onTimeout_def reject_def split: if_splits)

lemma table_resume:
  assumes "messageHandlers s n = Some r"
  shows "messageHandlers (resume w s) n \<noteq> None"
  using assms
  by (cases w) (auto simp: resume_def afterOpen_def register_def reject_def say_def Let_def
        split: outcome.splits option.splits)

lemma step_table:
  assumes "step e s = Some s'" "messageHandlers s n = Some r" "messageHandlers s' n = None"
  shows "(\<exists>k m mid. e = SocketMessage k (Decoded m) \<and> getProp m ''id'' = Some mid
            \<and> key_of mid = Some n)
       \<or> (\<exists>due ty r'. e = TimerFires (due, n, ty, r'))"
proof (cases e)
  case (Resume w)
  with assms table_resume [of "s\<lparr> awaiting := remove1 w (awaiting s) \<rparr>" n r w]
  show ?thesis by (auto split: if_splits)
next
  case (SocketMessage k d)
  with assms have "messageHandlers (handleWebSocketMessage d s) n \<noteq> messageHandlers s n"
    by (auto split: if_splits)
  from table_message [OF this] SocketMessage show ?thesis by blast
next
  case (TimerFires t)
  with assms
  have "messageHandlers (onTimeout t (s\<lparr> timers := remove1 t (timers s) \<rparr>)) n
          \<noteq> messageHandlers (s\<lparr> timers := remove1 t (timers s) \<rparr>) n"
    by (auto split: if_splits)
  from table_timeout [OF this] TimerFires show ?thesis by (cases t) auto
qed (use assms in \<open>auto simp: send_fields split: if_splits\<close>)

text \<open>
  C8. The handlers of the error and close events and \<^verbatim>\<open>closeWebSocket\<close> leave the request
  table and every future as they are, and so do the corresponding steps, which leave the
  timers alone as well. In any step after which an identifier of the table is no longer
  in it, the step is a message whose \<^verbatim>\<open>id\<close> is that identifier or a timer of that
  identifier firing.
\<close>

theorem disconnect_keeps_pending_requests:
  "messageHandlers (onerror k ev s) = messageHandlers s \<and> futures (onerror k ev s) = futures s
   \<and> messageHandlers (onclose k s) = messageHandlers s \<and> futures (onclose k s) = futures s
   \<and> messageHandlers (closeWebSocket s) = messageHandlers s
   \<and> futures (closeWebSocket s) = futures s
   \<and> ((e = SocketError k ev \<or> e = SocketClose k \<or> e = CallClose) \<and> step e s = Some s' \<longrightarrow>
         messageHandlers s' = messageHandlers s \<and> futures s' = futures s
       \<and> timers s' = timers s)
   \<and> (step e s = Some s' \<and> messageHandlers s n = Some r \<and> messageHandlers s' n = None \<longrightarrow>
         (\<exists>k m mid. e = SocketMessage k (Decoded m) \<and> getProp m ''id'' = Some mid
            \<and> key_of mid = Some n)
       \<or> (\<exists>due ty r'. e = TimerFires (due, n, ty, r')))"
proof -
  have a: "messageHandlers (onclose k s) = messageHandlers s \<and> futures (onclose k s) = futures s"
    by (simp add: onclose_def say_def Let_def)
  have b: "messageHandlers s' = messageHandlers s \<and> futures s' = futures s
       \<and> timers s' = timers s"
    if "e = SocketError k ev \<or> e = SocketClose k \<or> e = CallClose" "step e s = Some s'"
    using that by (auto split: if_splits)
  from a b step_table [of e s s' n r] show ?thesis
    by simp
qed

theorem disconnect_keeps_pending_requests_witness:
  "\<exists>s s' s''. exec two_requests init = Some s
     \<and> step (SocketError 0 7) s = Some s'
     \<and> messageHandlers s' = messageHandlers s \<and> futures s' = futures s
     \<and> messageHandlers s 1 = Some 0
     \<and> step (SocketMessage 0 (Decoded (JObj [(''id'', JNum 1)]))) s = Some s''
     \<and> messageHandlers s'' 1 = None"
proof -
  from run_two obtain s where s: "exec two_requests init = Some s"
    "messageHandlers s 1 = Some 0"
    by blast
  have "\<exists>s. exec two_requests init = Some s \<and> length (sockets s) = 1
          \<and> readyState (sockets s ! 0) = OPEN"
    by (simp add: two_requests_def one_request_def run)
  with s(1) have k: "0 < length (sockets s)" "readyState (sockets s ! 0) = OPEN"
    by auto
  let ?m = "JObj [(''id'', JNum 1)]"
  let ?s' = "onerror 0 7 s"
  let ?s'' = "handleWebSocketMessage (Decoded ?m) s"
  have a: "step (SocketError 0 7) s = Some ?s'"
    using k by simp
  have b: "step (SocketMessage 0 (Decoded ?m)) s = Some ?s''"
    using k by simp
  have g: "messageHandlers ?s'' 1 = None"
    using s(2)
    by (simp add: handleWebSocketMessage_def deliver_def settleEntry_def response_def
          readProp_def say_def Let_def key_of_def)
  note h = disconnect_keeps_pending_requests [of 0 7 s "SocketError 0 7" ?s' 1 0]
  from h a have c: "messageHandlers ?s' = messageHandlers s" "futures ?s' = futures s"
    by blast+
  note h2 = disconnect_keeps_pending_requests [of 0 7 s "SocketMessage 0 (Decoded ?m)" ?s'' 1 0]
  from h2 b s(2) g
  have "(\<exists>k m mid. SocketMessage 0 (Decoded ?m) = SocketMessage k (Decoded m)
            \<and> getProp m ''id'' = Some mid \<and> key_of mid = Some 1)
       \<or> (\<exists>due ty r'. SocketMessage 0 (Decoded ?m) = TimerFires (due, 1, ty, r'))"
    by blast
  from s(1) a c s(2) b g show ?thesis
    by (intro conjI exI [of _ s] exI [of _ ?s'] exI [of _ ?s''])
qed

end
